theory Spec2Isabelle
  imports
    Complex_Main
    "HOL-Library.Sublist"
    "HOL-Library.Multiset"
    "HOL-Library.Product_Lexorder"
begin

section \<open>JavaScript values\<close>

text \<open>
  The handlers of \<^verbatim>\<open>todos.routes.ts\<close> and \<^verbatim>\<open>notes.routes.ts\<close> destructure
  \<^verbatim>\<open>req.body\<close>, which is whatever JSON object the client sent: TypeScript's
  \<^verbatim>\<open>Todo\<close> interface is erased at run time, so every field copied from the body holds
  an arbitrary JSON value. A field that the body lacks destructures to \<^verbatim>\<open>undefined\<close>.
  Numbers are modelled as rationals; only whether a number is zero matters below.
\<close>

datatype jsval =
    Undefined
  | Null
  | Bool bool
  | Num rat
  | Str string
  | Arr "jsval list"
  | Obj "(string \<times> jsval) list"

text \<open>ToBoolean: what \<^verbatim>\<open>if (v)\<close>, \<^verbatim>\<open>!v\<close>, \<^verbatim>\<open>v && w\<close> and \<^verbatim>\<open>v || w\<close> test.\<close>

fun truthy :: "jsval \<Rightarrow> bool" where
  "truthy Undefined = False"
| "truthy Null = False"
| "truthy (Bool b) = b"
| "truthy (Num n) = (n \<noteq> 0)"
| "truthy (Str s) = (s \<noteq> [])"
| "truthy (Arr xs) = True"
| "truthy (Obj kvs) = True"

text \<open>\<^verbatim>\<open>a || b\<close> on values.\<close>

definition js_or :: "jsval \<Rightarrow> jsval \<Rightarrow> jsval" where
  "js_or a b = (if truthy a then a else b)"

text \<open>
  \<^verbatim>\<open>a === b\<close> for two values that come from different requests or literals:
  primitives compare by value, arrays and objects by reference, and two separately
  parsed arrays or objects are never the same reference.
\<close>

fun strict_eq :: "jsval \<Rightarrow> jsval \<Rightarrow> bool" where
  "strict_eq (Arr xs) b = False"
| "strict_eq (Obj kvs) b = False"
| "strict_eq a b = (a = b)"

text \<open>
  The parsed request body, as the list of its properties (a parsed object has each key
  once; without a JSON body the parser leaves the empty object), and a destructured
  field with its default.
\<close>

type_synonym body = "(string \<times> jsval) list"

definition field :: "body \<Rightarrow> string \<Rightarrow> jsval" where
  "field b k = (case map_of b k of None \<Rightarrow> Undefined | Some v \<Rightarrow> v)"

definition field_default :: "body \<Rightarrow> string \<Rightarrow> jsval \<Rightarrow> jsval" where
  "field_default b k d = (if field b k = Undefined then d else field b k)"

text \<open>\<^verbatim>\<open>Array.prototype.findIndex\<close>; \<open>None\<close> is the source's \<^verbatim>\<open>-1\<close>.\<close>

fun findIndex :: "('a \<Rightarrow> bool) \<Rightarrow> 'a list \<Rightarrow> nat option" where
  "findIndex P [] = None"
| "findIndex P (x # xs) = (if P x then Some 0 else map_option Suc (findIndex P xs))"

text \<open>\<^verbatim>\<open>xs.splice(i, 1)\<close>: the list without its element at \<open>i\<close>.\<close>

definition splice1 :: "nat \<Rightarrow> 'a list \<Rightarrow> 'a list" where
  "splice1 i xs = take i xs @ drop (Suc i) xs"

text \<open>\<^verbatim>\<open>xs.join(sep)\<close> on strings.\<close>

fun join :: "string \<Rightarrow> string list \<Rightarrow> string" where
  "join sep [] = []"
| "join sep [x] = x"
| "join sep (x # y # ys) = x @ sep @ join sep (y # ys)"

section \<open>The response envelope\<close>

text \<open>
  Every handler answers \<^verbatim>\<open>{ success, data?, error?: { message }, meta?, message? }\<close>
  with an HTTP status.
\<close>

record ('a, 'm) response =
  status :: nat
  success :: bool
  data :: "'a option"
  meta :: "'m option"
  error_message :: "string option"
  message :: "string option"

definition ok :: "nat \<Rightarrow> 'a \<Rightarrow> ('a, 'm) response" where
  "ok code x = \<lparr>status = code, success = True, data = Some x, meta = None,
     error_message = None, message = None\<rparr>"

definition fail :: "nat \<Rightarrow> string \<Rightarrow> ('a, 'm) response" where
  "fail code msg = \<lparr>status = code, success = False, data = None, meta = None,
     error_message = Some msg, message = None\<rparr>"

section \<open>Todos\<close>

text \<open>
  The \<^verbatim>\<open>Todo\<close> interface. \<open>todoId\<close> and \<open>todoType\<close> are the source's \<^verbatim>\<open>id\<close> and
  \<^verbatim>\<open>type\<close>. The four type-specific fields are optional properties: \<open>None\<close> is
  "the object has no such property", \<open>Some v\<close> is a property holding \<open>v\<close> (which
  may be \<open>Undefined\<close>). Timestamps are the instants (milliseconds) whose
  \<^verbatim>\<open>toISOString()\<close> rendering the source stores; \<open>completedAt = None\<close> is \<^verbatim>\<open>null\<close>.
\<close>

record Todo =
  todoId :: string
  todoType :: jsval
  title :: jsval
  description :: jsval
  priority :: jsval
  isCompleted :: jsval
  dueDate :: jsval
  tags :: jsval
  habitFrequency :: "jsval option"
  reminderTime :: "jsval option"
  url :: "jsval option"
  quantity :: "jsval option"
  createdAt :: int
  updatedAt :: int
  completedAt :: "int option"

definition validTypes :: "string list" where
  "validTypes = [''task'', ''goal'', ''habit'', ''reminder'', ''shopping'', ''idea'', ''bookmark'']"

text \<open>\<^verbatim>\<open>validTypes.includes(type)\<close>: some element is the same string.\<close>

definition validTypes_includes :: "jsval \<Rightarrow> bool" where
  "validTypes_includes v = (\<exists>s \<in> set validTypes. v = Str s)"

text \<open>\<^verbatim>\<open>...(cond && { key: v })\<close>: the property is set only when the condition holds.\<close>

definition spread_if :: "bool \<Rightarrow> jsval \<Rightarrow> jsval option" where
  "spread_if c v = (if c then Some v else None)"

text \<open>
  \<^verbatim>\<open>router.post('/')\<close>. \<open>uuid\<close> is what \<^verbatim>\<open>uuidv4()\<close> returns, \<open>now1\<close> and \<open>now2\<close>
  are the two readings of the clock, in the order the object literal takes them
  (\<^verbatim>\<open>createdAt: new Date()...\<close>, then \<^verbatim>\<open>updatedAt: new Date()...\<close>).
  \<open>new_todo\<close> is the object literal of lines 195 to 211 over the destructured body.
\<close>

definition new_todo :: "string \<Rightarrow> int \<Rightarrow> int \<Rightarrow> body \<Rightarrow> Todo" where
  "new_todo uuid now1 now2 b =
    (let type = field_default b ''type'' (Str ''task'');
         title' = field b ''title'';
         description' = field_default b ''description'' (Str []);
         priority' = field_default b ''priority'' (Str ''medium'');
         dueDate' = field_default b ''dueDate'' Null;
         tags' = field_default b ''tags'' (Arr []);
         habitFrequency' = field b ''habitFrequency'';
         reminderTime' = field b ''reminderTime'';
         url' = field b ''url'';
         quantity' = field b ''quantity''
     in \<lparr>todoId = uuid, todoType = type, title = title',
         description = description', priority = priority',
         isCompleted = Bool False, dueDate = dueDate', tags = tags',
         habitFrequency =
           spread_if (type = Str ''habit'') (js_or habitFrequency' (Str ''daily'')),
         reminderTime = spread_if (type = Str ''reminder'') reminderTime',
         url = spread_if (type = Str ''bookmark'') url',
         quantity = spread_if (type = Str ''shopping'') (js_or quantity' (Num 1)),
         createdAt = now1, updatedAt = now2, completedAt = None\<rparr>)"

definition post_todo ::
  "string \<Rightarrow> int \<Rightarrow> int \<Rightarrow> body \<Rightarrow> Todo list \<Rightarrow> (Todo, unit) response \<times> Todo list" where
  "post_todo uuid now1 now2 b todos =
    (let type = field_default b ''type'' (Str ''task'');
         title' = field b ''title''
     in if \<not> truthy title' then (fail 400 ''Title is required'', todos)
        else if \<not> validTypes_includes type then
          (fail 400 (''Invalid type. Must be one of: '' @ join '', '' validTypes), todos)
        else
          (let t = new_todo uuid now1 now2 b
           in (ok 201 t, todos @ [t])))"

text \<open>\<^verbatim>\<open>...(v !== undefined && { key: v })\<close> over an existing property.\<close>

definition merge_field :: "jsval \<Rightarrow> jsval \<Rightarrow> jsval" where
  "merge_field v old = (if v \<noteq> Undefined then v else old)"

definition merge_opt :: "jsval \<Rightarrow> jsval option \<Rightarrow> jsval option" where
  "merge_opt v old = (if v \<noteq> Undefined then Some v else old)"

text \<open>
  The body of \<^verbatim>\<open>router.put('/:id')\<close> once the todo is found: the completion rule and
  the merge. \<open>nowC\<close> is the clock reading taken for \<^verbatim>\<open>completedAt\<close> (when one is
  taken), \<open>nowU\<close> the one taken for \<^verbatim>\<open>updatedAt\<close>.
\<close>

definition put_merge :: "int \<Rightarrow> int \<Rightarrow> body \<Rightarrow> Todo \<Rightarrow> Todo" where
  "put_merge nowC nowU b old =
    (let isCompleted' = field b ''isCompleted'';
         completedAt' =
           (if isCompleted' \<noteq> Undefined then
              (if truthy isCompleted' \<and> \<not> truthy (isCompleted old) then Some nowC
               else if \<not> truthy isCompleted' then None
               else completedAt old)
            else completedAt old)
     in old\<lparr>title := merge_field (field b ''title'') (title old),
            description := merge_field (field b ''description'') (description old),
            priority := merge_field (field b ''priority'') (priority old),
            isCompleted := merge_field isCompleted' (isCompleted old),
            dueDate := merge_field (field b ''dueDate'') (dueDate old),
            tags := merge_field (field b ''tags'') (tags old),
            habitFrequency := merge_opt (field b ''habitFrequency'') (habitFrequency old),
            reminderTime := merge_opt (field b ''reminderTime'') (reminderTime old),
            url := merge_opt (field b ''url'') (url old),
            quantity := merge_opt (field b ''quantity'') (quantity old),
            completedAt := completedAt',
            updatedAt := nowU\<rparr>)"

definition put_todo ::
  "int \<Rightarrow> int \<Rightarrow> string \<Rightarrow> body \<Rightarrow> Todo list \<Rightarrow> (Todo, unit) response \<times> Todo list" where
  "put_todo nowC nowU i b todos =
    (case findIndex (\<lambda>t. todoId t = i) todos of
       None \<Rightarrow> (fail 404 ''Todo not found'', todos)
     | Some index \<Rightarrow>
         (let todos' = todos[index := put_merge nowC nowU b (todos ! index)]
          in (ok 200 (todos' ! index), todos')))"

text \<open>\<^verbatim>\<open>router.patch('/:id/complete')\<close>: the new object, then the handler.\<close>

definition toggle :: "int \<Rightarrow> int \<Rightarrow> Todo \<Rightarrow> Todo" where
  "toggle nowC nowU old =
    (let newCompleted = \<not> truthy (isCompleted old)
     in old\<lparr>isCompleted := Bool newCompleted,
            completedAt := (if newCompleted then Some nowC else None),
            updatedAt := nowU\<rparr>)"

definition patch_complete ::
  "int \<Rightarrow> int \<Rightarrow> string \<Rightarrow> Todo list \<Rightarrow> (Todo, unit) response \<times> Todo list" where
  "patch_complete nowC nowU i todos =
    (case findIndex (\<lambda>t. todoId t = i) todos of
       None \<Rightarrow> (fail 404 ''Todo not found'', todos)
     | Some index \<Rightarrow>
         (let todos' = todos[index := toggle nowC nowU (todos ! index)]
          in (ok 200 (todos' ! index), todos')))"

text \<open>\<^verbatim>\<open>router.delete('/:id')\<close>.\<close>

definition delete_todo :: "string \<Rightarrow> Todo list \<Rightarrow> (Todo, unit) response \<times> Todo list" where
  "delete_todo i todos =
    (case findIndex (\<lambda>t. todoId t = i) todos of
       None \<Rightarrow> (fail 404 ''Todo not found'', todos)
     | Some index \<Rightarrow>
         ((ok 200 (todos ! index))\<lparr>message := Some ''Todo deleted successfully''\<rparr>,
          splice1 index todos))"

subsection \<open>Reachable collections\<close>

text \<open>
  The collection starts empty and changes only through the four mutating handlers.
  A request carries what the handler reads from its environment: the identifier
  \<^verbatim>\<open>uuidv4()\<close> produces and the clock readings.
\<close>

datatype todo_request =
    PostTodo string int int body
  | PutTodo int int string body
  | PatchComplete int int string
  | DeleteTodo string

fun handle_todo :: "todo_request \<Rightarrow> Todo list \<Rightarrow> (Todo, unit) response \<times> Todo list" where
  "handle_todo (PostTodo uuid now1 now2 b) todos = post_todo uuid now1 now2 b todos"
| "handle_todo (PutTodo nowC nowU i b) todos = put_todo nowC nowU i b todos"
| "handle_todo (PatchComplete nowC nowU i) todos = patch_complete nowC nowU i todos"
| "handle_todo (DeleteTodo i) todos = delete_todo i todos"

fun run_todos :: "todo_request list \<Rightarrow> Todo list \<Rightarrow> Todo list" where
  "run_todos [] todos = todos"
| "run_todos (r # rs) todos = run_todos rs (snd (handle_todo r todos))"

subsection \<open>Listing todos\<close>

text \<open>
  \<^verbatim>\<open>req.query\<close> as the query parsers of Express build it: a parameter the URL lacks is
  \<open>None\<close>; one that is present is a string, possibly empty (\<^verbatim>\<open>?type=\<close>), an array (a
  repeated parameter) or, with the extended parser, an object (a bracketed parameter).
\<close>

datatype qsval =
    QStr string
  | QArr "qsval list"
  | QObj "(string \<times> qsval) list"

record todo_query =
  q_type :: "qsval option"
  q_priority :: "qsval option"
  q_completed :: "qsval option"
  q_tag :: "qsval option"
  q_search :: "qsval option"
  q_dueBefore :: "qsval option"
  q_dueAfter :: "qsval option"

text \<open>
  \<^verbatim>\<open>if (type)\<close>, \<^verbatim>\<open>if (tag)\<close>, ...: the guard passes for a present value that is not the
  empty string. (\<^verbatim>\<open>completed\<close> is tested with \<^verbatim>\<open>!== undefined\<close> instead.)
\<close>

definition param :: "qsval option \<Rightarrow> qsval option" where
  "param p = (case p of None \<Rightarrow> None | Some v \<Rightarrow> if v = QStr [] then None else Some v)"

text \<open>
  \<^verbatim>\<open>t.type === type\<close>: a stored value and a query value are strictly equal only when
  both are the same string (an array or object of the query is a reference of its own).
\<close>

definition eq_param :: "jsval \<Rightarrow> qsval \<Rightarrow> bool" where
  "eq_param v p = (case p of QStr s \<Rightarrow> v = Str s | _ \<Rightarrow> False)"

text \<open>The query value as a value of the language.\<close>

fun js_of_qs :: "qsval \<Rightarrow> jsval" and js_of_qs_list :: "qsval list \<Rightarrow> jsval list"
  and js_of_qs_props :: "(string \<times> qsval) list \<Rightarrow> (string \<times> jsval) list" where
  "js_of_qs (QStr s) = Str s"
| "js_of_qs (QArr xs) = Arr (js_of_qs_list xs)"
| "js_of_qs (QObj kvs) = Obj (js_of_qs_props kvs)"
| "js_of_qs_list [] = []"
| "js_of_qs_list (x # xs) = js_of_qs x # js_of_qs_list xs"
| "js_of_qs_props [] = []"
| "js_of_qs_props ((k, v) # kvs) = (k, js_of_qs v) # js_of_qs_props kvs"

text \<open>
  A handler that throws is answered by the error middleware; the only exception the
  list handler can raise is a \<^verbatim>\<open>TypeError\<close>: from calling a method that a value does
  not have, or from converting to a primitive an object that cannot be converted.
\<close>

datatype js_error = TypeError

definition bindE :: "'e + 'a \<Rightarrow> ('a \<Rightarrow> 'e + 'b) \<Rightarrow> 'e + 'b" where
  "bindE m f = (case m of Inl e \<Rightarrow> Inl e | Inr x \<Rightarrow> f x)"

text \<open>\<^verbatim>\<open>xs.filter(p)\<close> with a callback that may throw: the first throw aborts.\<close>

fun filterE :: "('a \<Rightarrow> 'e + bool) \<Rightarrow> 'a list \<Rightarrow> 'e + 'a list" where
  "filterE p [] = Inr []"
| "filterE p (x # xs) =
     (case p x of
        Inl e \<Rightarrow> Inl e
      | Inr b \<Rightarrow> (case filterE p xs of
                   Inl e \<Rightarrow> Inl e
                 | Inr ys \<Rightarrow> Inr (if b then x # ys else ys)))"

text \<open>
  Conversion to a primitive (to a string, a property key or a date). No value parsed
  from JSON or from a query string is callable, so an object with a property of its
  own named \<^verbatim>\<open>toString\<close> has no usable \<^verbatim>\<open>toString\<close>, and the inherited \<^verbatim>\<open>valueOf\<close>
  returns the object itself: the conversion throws. Every other object converts (to
  \<^verbatim>\<open>[object Object]\<close>); an array converts by joining its elements, \<^verbatim>\<open>null\<close> and
  \<^verbatim>\<open>undefined\<close> ones as empty strings, and throws when one of them does.
\<close>

fun to_primitive_throws :: "jsval \<Rightarrow> bool"
  and some_element_throws :: "jsval list \<Rightarrow> bool" where
  "to_primitive_throws (Obj kvs) = (''toString'' \<in> fst ` set kvs)"
| "to_primitive_throws (Arr xs) = some_element_throws xs"
| "to_primitive_throws Undefined = False"
| "to_primitive_throws Null = False"
| "to_primitive_throws (Bool b) = False"
| "to_primitive_throws (Num n) = False"
| "to_primitive_throws (Str s) = False"
| "some_element_throws [] = False"
| "some_element_throws (x # xs) = (to_primitive_throws x \<or> some_element_throws xs)"

text \<open>\<^verbatim>\<open>String(v)\<close> for a query value.\<close>

fun qs_to_string :: "qsval \<Rightarrow> js_error + string"
  and qs_join :: "qsval list \<Rightarrow> js_error + string" where
  "qs_to_string (QStr s) = Inr s"
| "qs_to_string (QArr xs) = qs_join xs"
| "qs_to_string (QObj kvs) =
     (if ''toString'' \<in> fst ` set kvs then Inl TypeError else Inr ''[object Object]'')"
| "qs_join [] = Inr []"
| "qs_join [x] = qs_to_string x"
| "qs_join (x # y # ys) =
     (case qs_to_string x of
        Inl e \<Rightarrow> Inl e
      | Inr a \<Rightarrow> (case qs_join (y # ys) of
                   Inl e \<Rightarrow> Inl e
                 | Inr b \<Rightarrow> Inr (a @ '','' @ b)))"

text \<open>
  \<^verbatim>\<open>t.tags.includes(tag)\<close>: on an array, membership of the tag, which only a string
  tag can have; on a string, \<^verbatim>\<open>String.prototype.includes\<close> (a substring test, the tag
  converted to a string); any other value has no callable \<^verbatim>\<open>includes\<close>.
\<close>

fun tags_includes :: "jsval \<Rightarrow> qsval \<Rightarrow> js_error + bool" where
  "tags_includes (Arr xs) g = Inr (case g of QStr s \<Rightarrow> Str s \<in> set xs | _ \<Rightarrow> False)"
| "tags_includes (Str s) g =
     (case qs_to_string g of Inl e \<Rightarrow> Inl e | Inr gs \<Rightarrow> Inr (sublist gs s))"
| "tags_includes v g = Inl TypeError"

text \<open>
  \<^verbatim>\<open>String.prototype.toLowerCase\<close> is a parameter \<open>L\<close> of the model: the case mapping is
  the engine's (and Unicode's) business. \<^verbatim>\<open>(search as string).toLowerCase()\<close>: only a
  string has the method.
\<close>

definition search_lower :: "(string \<Rightarrow> string) \<Rightarrow> qsval \<Rightarrow> js_error + string" where
  "search_lower L s = (case s of QStr x \<Rightarrow> Inr (L x) | _ \<Rightarrow> Inl TypeError)"

text \<open>\<^verbatim>\<open>v.toLowerCase().includes(searchLower)\<close>: only a string has \<^verbatim>\<open>toLowerCase\<close>.\<close>

fun lower_includes :: "(string \<Rightarrow> string) \<Rightarrow> jsval \<Rightarrow> string \<Rightarrow> js_error + bool" where
  "lower_includes L (Str s) searchLower = Inr (sublist searchLower (L s))"
| "lower_includes L v searchLower = Inl TypeError"

text \<open>The search callback; \<^verbatim>\<open>||\<close> does not evaluate the description after a hit.\<close>

definition search_hit :: "(string \<Rightarrow> string) \<Rightarrow> string \<Rightarrow> Todo \<Rightarrow> js_error + bool" where
  "search_hit L searchLower t =
     (case lower_includes L (title t) searchLower of
        Inl e \<Rightarrow> Inl e
      | Inr True \<Rightarrow> Inr True
      | Inr False \<Rightarrow> lower_includes L (description t) searchLower)"

text \<open>
  Dates. \<open>D v\<close> stands for the time value of \<^verbatim>\<open>new Date(v)\<close> for a value that converts
  to a primitive, \<open>None\<close> when the date is invalid (\<^verbatim>\<open>NaN\<close>). It is a parameter: what
  \<^verbatim>\<open>Date\<close> accepts is the engine's business. A comparison with \<^verbatim>\<open>NaN\<close> is false.
\<close>

definition date_time :: "(jsval \<Rightarrow> int option) \<Rightarrow> jsval \<Rightarrow> js_error + int option" where
  "date_time D v = (if to_primitive_throws v then Inl TypeError else Inr (D v))"

definition date_le :: "int option \<Rightarrow> int option \<Rightarrow> bool" where
  "date_le a b = (case (a, b) of (Some x, Some y) \<Rightarrow> x \<le> y | _ \<Rightarrow> False)"

text \<open>
  The callbacks of the two date filters,
  \<^verbatim>\<open>t.dueDate && new Date(t.dueDate) <= new Date(dueBefore)\<close> and its mirror image:
  the todo's date is built first, and neither is built for a falsy \<^verbatim>\<open>dueDate\<close>.
\<close>

definition due_before :: "(jsval \<Rightarrow> int option) \<Rightarrow> qsval \<Rightarrow> Todo \<Rightarrow> js_error + bool" where
  "due_before D d t =
     (if \<not> truthy (dueDate t) then Inr False
      else bindE (date_time D (dueDate t)) (\<lambda>a.
           bindE (date_time D (js_of_qs d)) (\<lambda>b. Inr (date_le a b))))"

definition due_after :: "(jsval \<Rightarrow> int option) \<Rightarrow> qsval \<Rightarrow> Todo \<Rightarrow> js_error + bool" where
  "due_after D d t =
     (if \<not> truthy (dueDate t) then Inr False
      else bindE (date_time D (dueDate t)) (\<lambda>a.
           bindE (date_time D (js_of_qs d)) (\<lambda>b. Inr (date_le b a))))"

text \<open>Lines 46 to 87 of \<^verbatim>\<open>router.get('/')\<close>: the filters, in the source's order.\<close>

definition filter_todos ::
  "(string \<Rightarrow> string) \<Rightarrow> (jsval \<Rightarrow> int option) \<Rightarrow> todo_query \<Rightarrow> Todo list \<Rightarrow>
     js_error + Todo list" where
  "filter_todos L D q todos =
    (let f1 = (case param (q_type q) of None \<Rightarrow> todos
               | Some ty \<Rightarrow> filter (\<lambda>t. eq_param (todoType t) ty) todos);
         f2 = (case param (q_priority q) of None \<Rightarrow> f1
               | Some p \<Rightarrow> filter (\<lambda>t. eq_param (priority t) p) f1);
         f3 = (case q_completed q of None \<Rightarrow> f2
               | Some c \<Rightarrow> filter (\<lambda>t. strict_eq (isCompleted t) (Bool (c = QStr ''true''))) f2)
     in bindE (case param (q_tag q) of None \<Rightarrow> Inr f3
               | Some g \<Rightarrow> filterE (\<lambda>t. tags_includes (tags t) g) f3) (\<lambda>f4.
        bindE (case param (q_search q) of None \<Rightarrow> Inr f4
               | Some s \<Rightarrow> bindE (search_lower L s) (\<lambda>searchLower.
                            filterE (search_hit L searchLower) f4)) (\<lambda>f5.
        bindE (case param (q_dueBefore q) of None \<Rightarrow> Inr f5
               | Some d \<Rightarrow> filterE (due_before D d) f5) (\<lambda>f6.
        (case param (q_dueAfter q) of None \<Rightarrow> Inr f6
         | Some d \<Rightarrow> filterE (due_after D d) f6)))))"

text \<open>
  The comparator of lines 90 to 105. \<^verbatim>\<open>priorityOrder[p]\<close> converts \<open>p\<close> to a property
  key and looks it up: a number for the four keys, a member of \<^verbatim>\<open>Object.prototype\<close> for
  a key that names one, \<^verbatim>\<open>undefined\<close> otherwise. The string of a number, of a boolean,
  of \<^verbatim>\<open>null\<close>, of an object or of an array of two or more elements (it has a comma) is
  none of these names; the string of a one-element array is that of its element.
\<close>

datatype looked_up = Rank int | Member string | Missing

definition priorityOrder :: "(string \<times> int) list" where
  "priorityOrder = [(''urgent'', 0), (''high'', 1), (''medium'', 2), (''low'', 3)]"

definition object_prototype_members :: "string list" where
  "object_prototype_members =
    [''constructor'', ''hasOwnProperty'', ''isPrototypeOf'', ''propertyIsEnumerable'',
     ''toLocaleString'', ''toString'', ''valueOf'', ''__proto__'', ''__defineGetter__'',
     ''__defineSetter__'', ''__lookupGetter__'', ''__lookupSetter__'']"

definition priorityOrder_get :: "string \<Rightarrow> looked_up" where
  "priorityOrder_get k =
    (case map_of priorityOrder k of
       Some n \<Rightarrow> Rank n
     | None \<Rightarrow> if k \<in> set object_prototype_members then Member k else Missing)"

fun priorityOrder_at :: "jsval \<Rightarrow> js_error + looked_up" where
  "priorityOrder_at (Str s) = Inr (priorityOrder_get s)"
| "priorityOrder_at (Arr []) = Inr Missing"
| "priorityOrder_at (Arr [x]) =
     (if x = Null \<or> x = Undefined then Inr Missing else priorityOrder_at x)"
| "priorityOrder_at (Arr (x # y # zs)) =
     (if some_element_throws (x # y # zs) then Inl TypeError else Inr Missing)"
| "priorityOrder_at (Obj kvs) =
     (if ''toString'' \<in> fst ` set kvs then Inl TypeError else Inr Missing)"
| "priorityOrder_at Undefined = Inr Missing"
| "priorityOrder_at Null = Inr Missing"
| "priorityOrder_at (Bool b) = Inr Missing"
| "priorityOrder_at (Num n) = Inr Missing"

text \<open>
  \<^verbatim>\<open>x - y\<close> on what was looked up, and on two time values: a number only for two
  numbers, \<^verbatim>\<open>NaN\<close> (\<open>None\<close>) otherwise.
\<close>

definition rank_minus :: "looked_up \<Rightarrow> looked_up \<Rightarrow> int option" where
  "rank_minus a b = (case (a, b) of (Rank x, Rank y) \<Rightarrow> Some (x - y) | _ \<Rightarrow> None)"

definition js_minus :: "int option \<Rightarrow> int option \<Rightarrow> int option" where
  "js_minus a b = (case (a, b) of (Some x, Some y) \<Rightarrow> Some (x - y) | _ \<Rightarrow> None)"

definition compare_todos ::
  "(jsval \<Rightarrow> int option) \<Rightarrow> Todo \<Rightarrow> Todo \<Rightarrow> js_error + int option" where
  "compare_todos D a b =
    (if \<not> strict_eq (isCompleted a) (isCompleted b) then
       Inr (Some (if truthy (isCompleted a) then 1 else - 1))
     else
       bindE (priorityOrder_at (priority a)) (\<lambda>pa.
       bindE (priorityOrder_at (priority b)) (\<lambda>pb.
         if pa \<noteq> pb then Inr (rank_minus pa pb)
         else if truthy (dueDate a) \<and> truthy (dueDate b) then
           bindE (date_time D (dueDate a)) (\<lambda>da.
           bindE (date_time D (dueDate b)) (\<lambda>db. Inr (js_minus da db)))
         else if truthy (dueDate a) then Inr (Some (- 1))
         else if truthy (dueDate b) then Inr (Some 1)
         else Inr (Some 0))))"

text \<open>
  \<^verbatim>\<open>Array.prototype.sort(comparefn)\<close>. The language fixes the result only for a
  comparator that is a consistent ordering (the stable sorted list); for any other the
  order is the engine's. The model is the algorithm of Node's engine, V8, on an array
  of fewer than 64 elements, where it never merges: it reads a \<^verbatim>\<open>NaN\<close> result as 0,
  takes the longest run at the front that is non-descending or strictly descending
  (and reverses a descending one), then inserts each further element into the sorted
  front by binary search, behind the elements it does not compare less than. A throw
  of the comparator ends the sort. On longer arrays the engine also merges runs, which
  gives the same list whenever the comparator is a consistent ordering.
\<close>

definition sort_compare :: "js_error + int option \<Rightarrow> js_error + int" where
  "sort_compare r =
    (case r of Inl e \<Rightarrow> Inl e | Inr None \<Rightarrow> Inr 0 | Inr (Some n) \<Rightarrow> Inr n)"

fun extend_run ::
  "('a \<Rightarrow> 'a \<Rightarrow> js_error + int option) \<Rightarrow> bool \<Rightarrow> 'a \<Rightarrow> 'a list \<Rightarrow>
     js_error + 'a list \<times> 'a list" where
  "extend_run c descending previous [] = Inr ([], [])"
| "extend_run c descending previous (x # xs) =
     (case sort_compare (c x previous) of
        Inl e \<Rightarrow> Inl e
      | Inr order \<Rightarrow>
          if (if descending then 0 \<le> order else order < 0) then Inr ([], x # xs)
          else (case extend_run c descending x xs of
                  Inl e \<Rightarrow> Inl e
                | Inr (run, rest) \<Rightarrow> Inr (x # run, rest)))"

definition count_and_make_run ::
  "('a \<Rightarrow> 'a \<Rightarrow> js_error + int option) \<Rightarrow> 'a \<Rightarrow> 'a \<Rightarrow> 'a list \<Rightarrow>
     js_error + 'a list \<times> 'a list" where
  "count_and_make_run c x0 x1 xs =
     (case sort_compare (c x1 x0) of
        Inl e \<Rightarrow> Inl e
      | Inr order \<Rightarrow>
          (case extend_run c (order < 0) x1 xs of
             Inl e \<Rightarrow> Inl e
           | Inr (run, rest) \<Rightarrow>
               Inr (if order < 0 then rev (x0 # x1 # run) else x0 # x1 # run, rest)))"

function binary_search ::
  "('a \<Rightarrow> 'a \<Rightarrow> js_error + int option) \<Rightarrow> 'a \<Rightarrow> 'a list \<Rightarrow> nat \<Rightarrow> nat \<Rightarrow> js_error + nat" where
  "binary_search c pivot a left right =
     (if left < right then
        (case sort_compare (c pivot (a ! (left + (right - left) div 2))) of
           Inl e \<Rightarrow> Inl e
         | Inr order \<Rightarrow>
             if order < 0 then binary_search c pivot a left (left + (right - left) div 2)
             else binary_search c pivot a (left + (right - left) div 2 + 1) right)
      else Inr left)"
  by pat_completeness auto
termination
  by (relation "measure (\<lambda>(c, pivot, a, left, right). right - left)") auto

declare binary_search.simps [simp del]

fun binary_insertion_sort ::
  "('a \<Rightarrow> 'a \<Rightarrow> js_error + int option) \<Rightarrow> 'a list \<Rightarrow> 'a list \<Rightarrow> js_error + 'a list" where
  "binary_insertion_sort c a [] = Inr a"
| "binary_insertion_sort c a (pivot # rest) =
     (case binary_search c pivot a 0 (length a) of
        Inl e \<Rightarrow> Inl e
      | Inr left \<Rightarrow> binary_insertion_sort c (take left a @ pivot # drop left a) rest)"

fun array_sort ::
  "('a \<Rightarrow> 'a \<Rightarrow> js_error + int option) \<Rightarrow> 'a list \<Rightarrow> js_error + 'a list" where
  "array_sort c [] = Inr []"
| "array_sort c [x] = Inr [x]"
| "array_sort c (x0 # x1 # xs) =
     (case count_and_make_run c x0 x1 xs of
        Inl e \<Rightarrow> Inl e
      | Inr (run, rest) \<Rightarrow> binary_insertion_sort c run rest)"

definition sort_todos :: "(jsval \<Rightarrow> int option) \<Rightarrow> Todo list \<Rightarrow> js_error + Todo list" where
  "sort_todos D xs = array_sort (compare_todos D) xs"

text \<open>The \<^verbatim>\<open>meta\<close> object of lines 110 to 123.\<close>

record todo_meta =
  total :: nat
  byType :: "(string \<times> nat) list"
  completed :: nat
  pending :: nat

definition count_type :: "string \<Rightarrow> Todo list \<Rightarrow> nat" where
  "count_type k xs = length (filter (\<lambda>t. strict_eq (todoType t) (Str k)) xs)"

definition list_meta :: "Todo list \<Rightarrow> todo_meta" where
  "list_meta filtered =
    \<lparr>total = length filtered,
     byType = [(''task'', count_type ''task'' filtered),
               (''goal'', count_type ''goal'' filtered),
               (''habit'', count_type ''habit'' filtered),
               (''reminder'', count_type ''reminder'' filtered),
               (''shopping'', count_type ''shopping'' filtered),
               (''idea'', count_type ''idea'' filtered),
               (''bookmark'', count_type ''bookmark'' filtered)],
     completed = length (filter (\<lambda>t. truthy (isCompleted t)) filtered),
     pending = length (filter (\<lambda>t. \<not> truthy (isCompleted t)) filtered)\<rparr>"

text \<open>\<^verbatim>\<open>router.get('/')\<close>.\<close>

definition get_todos ::
  "(string \<Rightarrow> string) \<Rightarrow> (jsval \<Rightarrow> int option) \<Rightarrow> todo_query \<Rightarrow> Todo list \<Rightarrow>
     js_error + (Todo list, todo_meta) response" where
  "get_todos L D q todos =
    bindE (filter_todos L D q todos) (\<lambda>filtered.
    bindE (sort_todos D filtered) (\<lambda>sorted_todos.
      Inr ((ok 200 sorted_todos)\<lparr>meta := Some (list_meta sorted_todos)\<rparr>)))"

definition no_query :: todo_query where
  "no_query = \<lparr>q_type = None, q_priority = None, q_completed = None, q_tag = None,
     q_search = None, q_dueBefore = None, q_dueAfter = None\<rparr>"

section \<open>Notes\<close>

text \<open>
  The \<^verbatim>\<open>Note\<close> interface; \<open>noteId\<close>, \<open>noteTitle\<close>, \<open>noteTags\<close>, \<open>noteCreatedAt\<close> and
  \<open>noteUpdatedAt\<close> are the source's \<^verbatim>\<open>id\<close>, \<^verbatim>\<open>title\<close>, \<^verbatim>\<open>tags\<close>, \<^verbatim>\<open>createdAt\<close> and
  \<^verbatim>\<open>updatedAt\<close>.
\<close>

record Note =
  noteId :: string
  noteTitle :: jsval
  content :: jsval
  noteTags :: jsval
  isPinned :: jsval
  noteCreatedAt :: int
  noteUpdatedAt :: int

definition post_note ::
  "string \<Rightarrow> int \<Rightarrow> int \<Rightarrow> body \<Rightarrow> Note list \<Rightarrow> (Note, unit) response \<times> Note list" where
  "post_note uuid now1 now2 b notes =
    (let title' = field b ''title'';
         content' = field_default b ''content'' (Str []);
         tags' = field_default b ''tags'' (Arr []);
         isPinned' = field_default b ''isPinned'' (Bool False)
     in if \<not> truthy title' then (fail 400 ''Title is required'', notes)
        else
          (let n = \<lparr>noteId = uuid, noteTitle = title', content = content',
                    noteTags = tags', isPinned = isPinned',
                    noteCreatedAt = now1, noteUpdatedAt = now2\<rparr>
           in (ok 201 n, notes @ [n])))"

definition put_note_merge :: "int \<Rightarrow> body \<Rightarrow> Note \<Rightarrow> Note" where
  "put_note_merge now b old =
     old\<lparr>noteTitle := merge_field (field b ''title'') (noteTitle old),
         content := merge_field (field b ''content'') (content old),
         noteTags := merge_field (field b ''tags'') (noteTags old),
         isPinned := merge_field (field b ''isPinned'') (isPinned old),
         noteUpdatedAt := now\<rparr>"

definition put_note ::
  "int \<Rightarrow> string \<Rightarrow> body \<Rightarrow> Note list \<Rightarrow> (Note, unit) response \<times> Note list" where
  "put_note now i b notes =
    (case findIndex (\<lambda>n. noteId n = i) notes of
       None \<Rightarrow> (fail 404 ''Note not found'', notes)
     | Some index \<Rightarrow>
         (let notes' = notes[index := put_note_merge now b (notes ! index)]
          in (ok 200 (notes' ! index), notes')))"

definition delete_note :: "string \<Rightarrow> Note list \<Rightarrow> (Note, unit) response \<times> Note list" where
  "delete_note i notes =
    (case findIndex (\<lambda>n. noteId n = i) notes of
       None \<Rightarrow> (fail 404 ''Note not found'', notes)
     | Some index \<Rightarrow>
         ((ok 200 (notes ! index))\<lparr>message := Some ''Note deleted successfully''\<rparr>,
          splice1 index notes))"

datatype note_request =
    PostNote string int int body
  | PutNote int string body
  | DeleteNote string

fun handle_note :: "note_request \<Rightarrow> Note list \<Rightarrow> (Note, unit) response \<times> Note list" where
  "handle_note (PostNote uuid now1 now2 b) notes = post_note uuid now1 now2 b notes"
| "handle_note (PutNote now i b) notes = put_note now i b notes"
| "handle_note (DeleteNote i) notes = delete_note i notes"

fun run_notes :: "note_request list \<Rightarrow> Note list \<Rightarrow> Note list" where
  "run_notes [] notes = notes"
| "run_notes (r # rs) notes = run_notes rs (snd (handle_note r notes))"

text \<open>The clock readings a request hands to its handler, in the order they are taken.\<close>

fun note_clock :: "note_request \<Rightarrow> int list" where
  "note_clock (PostNote uuid now1 now2 b) = [now1, now2]"
| "note_clock (PutNote now i b) = [now]"
| "note_clock (DeleteNote i) = []"

text \<open>
  A note whose timestamps are in order, and which was created no later than any of
  the clock readings still to come.
\<close>

definition note_before :: "int list \<Rightarrow> Note \<Rightarrow> bool" where
  "note_before future n =
    (noteCreatedAt n \<le> noteUpdatedAt n \<and> (\<forall>t \<in> set future. noteCreatedAt n \<le> t))"

section \<open>The specification's reading of the list operation\<close>

text \<open>
  The list operation as the specification words it, to be compared with the handler
  on the inputs the interface describes: string parameters in the query, and stored
  todos of the declared types. A filter is supplied when its parameter passes the
  handler's guard: present and non-empty, and for \<^verbatim>\<open>completed\<close> merely present, the
  value \<^verbatim>\<open>true\<close> meaning true and every other value false.
\<close>

definition string_param :: "qsval option \<Rightarrow> bool" where
  "string_param p = (case p of None \<Rightarrow> True | Some (QStr s) \<Rightarrow> True | Some _ \<Rightarrow> False)"

definition string_query :: "todo_query \<Rightarrow> bool" where
  "string_query q =
    (string_param (q_type q) \<and> string_param (q_priority q) \<and> string_param (q_completed q) \<and>
     string_param (q_tag q) \<and> string_param (q_search q) \<and> string_param (q_dueBefore q) \<and>
     string_param (q_dueAfter q))"

definition supplied :: "qsval option \<Rightarrow> string option" where
  "supplied p = (case param p of Some (QStr s) \<Rightarrow> Some s | _ \<Rightarrow> None)"

definition has_tag :: "Todo \<Rightarrow> string \<Rightarrow> bool" where
  "has_tag t g = (case tags t of Arr xs \<Rightarrow> Str g \<in> set xs | _ \<Rightarrow> False)"

definition contains_ci :: "(string \<Rightarrow> string) \<Rightarrow> jsval \<Rightarrow> string \<Rightarrow> bool" where
  "contains_ci L v s = (case v of Str x \<Rightarrow> sublist (L s) (L x) | _ \<Rightarrow> False)"

definition spec_matches ::
  "(string \<Rightarrow> string) \<Rightarrow> (jsval \<Rightarrow> int option) \<Rightarrow> todo_query \<Rightarrow> Todo \<Rightarrow> bool" where
  "spec_matches L D q t =
    ((case supplied (q_type q) of None \<Rightarrow> True | Some ty \<Rightarrow> todoType t = Str ty) \<and>
     (case supplied (q_priority q) of None \<Rightarrow> True | Some p \<Rightarrow> priority t = Str p) \<and>
     (case q_completed q of None \<Rightarrow> True
      | Some c \<Rightarrow> isCompleted t = Bool (c = QStr ''true'')) \<and>
     (case supplied (q_tag q) of None \<Rightarrow> True | Some g \<Rightarrow> has_tag t g) \<and>
     (case supplied (q_search q) of None \<Rightarrow> True
      | Some s \<Rightarrow> contains_ci L (title t) s \<or> contains_ci L (description t) s) \<and>
     (case supplied (q_dueBefore q) of None \<Rightarrow> True
      | Some d \<Rightarrow> dueDate t \<noteq> Null \<and> date_le (D (dueDate t)) (D (Str d))) \<and>
     (case supplied (q_dueAfter q) of None \<Rightarrow> True
      | Some d \<Rightarrow> dueDate t \<noteq> Null \<and> date_le (D (Str d)) (D (dueDate t))))"

text \<open>
  A stored todo whose text, tags and due date have the types the \<^verbatim>\<open>Todo\<close> interface
  declares: \<^verbatim>\<open>title: string\<close>, \<^verbatim>\<open>description: string\<close>, \<^verbatim>\<open>tags: string[]\<close> (an array)
  and \<^verbatim>\<open>dueDate: string | null\<close>. Neither handler checks any of this.
\<close>

definition filterable :: "Todo \<Rightarrow> bool" where
  "filterable t =
    ((case title t of Str s \<Rightarrow> True | _ \<Rightarrow> False) \<and>
     (case description t of Str s \<Rightarrow> True | _ \<Rightarrow> False) \<and>
     (case tags t of Arr xs \<Rightarrow> True | _ \<Rightarrow> False) \<and>
     (case dueDate t of Null \<Rightarrow> True | Str s \<Rightarrow> True | _ \<Rightarrow> False))"

text \<open>
  The order of the list: incomplete before completed, then the priority rank
  urgent = 0, high = 1, medium = 2, low = 3, then dated before undated, then the
  due date. The key is compared lexicographically.
\<close>

definition priority_rank :: "jsval \<Rightarrow> nat" where
  "priority_rank p =
    (if p = Str ''urgent'' then 0 else if p = Str ''high'' then 1
     else if p = Str ''medium'' then 2 else if p = Str ''low'' then 3 else 4)"

definition order_key :: "(jsval \<Rightarrow> int option) \<Rightarrow> Todo \<Rightarrow> bool \<times> nat \<times> bool \<times> int" where
  "order_key D t =
    (truthy (isCompleted t), priority_rank (priority t), \<not> truthy (dueDate t),
     (if truthy (dueDate t) then (case D (dueDate t) of Some n \<Rightarrow> n | None \<Rightarrow> 0) else 0))"

text \<open>
  A stored todo the order is defined for: \<^verbatim>\<open>isCompleted: boolean\<close>,
  \<^verbatim>\<open>priority: Priority\<close> (one of the four) and \<^verbatim>\<open>dueDate: string | null\<close>, the string
  a valid date. Neither handler checks any of this.
\<close>

definition sortable :: "(jsval \<Rightarrow> int option) \<Rightarrow> Todo \<Rightarrow> bool" where
  "sortable D t =
    ((case isCompleted t of Bool b \<Rightarrow> True | _ \<Rightarrow> False) \<and>
     priority t \<in> set (map Str [''low'', ''medium'', ''high'', ''urgent'']) \<and>
     (case dueDate t of Null \<Rightarrow> True | Str s \<Rightarrow> s = [] \<or> D (Str s) \<noteq> None | _ \<Rightarrow> False))"

text \<open>
  A comparator that never throws on the elements at hand and is negative exactly when
  the first argument has the smaller key.
\<close>

definition agrees ::
  "('a \<Rightarrow> 'a \<Rightarrow> js_error + int option) \<Rightarrow> ('a \<Rightarrow> 'k::linorder) \<Rightarrow> 'a set \<Rightarrow> bool" where
  "agrees c f S =
    (\<forall>x \<in> S. \<forall>y \<in> S. \<exists>n. sort_compare (c x y) = Inr n \<and> (n < 0) = (f x < f y))"

text \<open>
  Completion and its timestamp. The specification's invariant: \<^verbatim>\<open>completedAt\<close> is
  non-null if and only if \<^verbatim>\<open>isCompleted\<close> is \<^verbatim>\<open>true\<close>. What the handlers keep, testing
  \<^verbatim>\<open>isCompleted\<close> as a condition: \<^verbatim>\<open>completedAt\<close> is non-null if and only if
  \<^verbatim>\<open>isCompleted\<close> is truthy. The two agree on booleans.
\<close>

definition completion_invariant :: "Todo \<Rightarrow> bool" where
  "completion_invariant t = ((completedAt t \<noteq> None) = (isCompleted t = Bool True))"

definition completion_follows_truthiness :: "Todo \<Rightarrow> bool" where
  "completion_follows_truthiness t = ((completedAt t \<noteq> None) = truthy (isCompleted t))"

section \<open>Worked collections\<close>

text \<open>
  The four todos of the specification's ordering example, created in the order A, B,
  C, D and with D then completed: A (pending, high, due 2025-01-01), B (pending, high,
  due 2025-01-02), C (pending, urgent, no due date), D (completed, urgent,
  due 2025-01-01). \<open>example_dates\<close> gives the two dates their time values (UTC
  midnight, in milliseconds) and rejects every other value; \<open>example_lower\<close>
  lower-cases the letters A to Z.
\<close>

definition example_requests :: "todo_request list" where
  "example_requests =
    [PostTodo ''A'' 1 1 [(''title'', Str ''A''), (''priority'', Str ''high''),
                         (''dueDate'', Str ''2025-01-01'')],
     PostTodo ''B'' 2 2 [(''title'', Str ''B''), (''priority'', Str ''high''),
                         (''dueDate'', Str ''2025-01-02'')],
     PostTodo ''C'' 3 3 [(''title'', Str ''C''), (''priority'', Str ''urgent'')],
     PostTodo ''D'' 4 4 [(''title'', Str ''D''), (''priority'', Str ''urgent''),
                         (''dueDate'', Str ''2025-01-01'')],
     PatchComplete 5 5 ''D'']"

definition example_dates :: "jsval \<Rightarrow> int option" where
  "example_dates v =
    (if v = Str ''2025-01-01'' then Some 1735689600000
     else if v = Str ''2025-01-02'' then Some 1735776000000
     else None)"



text \<open>
  Requests that the handlers accept although a field of the body has not the type the
  \<^verbatim>\<open>Todo\<close> interface declares: an update with the string \<^verbatim>\<open>"false"\<close> for
  \<^verbatim>\<open>isCompleted\<close>; three todos of priorities \<^verbatim>\<open>low\<close>, \<^verbatim>\<open>someday\<close> and \<^verbatim>\<open>high\<close>; a todo
  whose \<^verbatim>\<open>tags\<close> is the string \<^verbatim>\<open>"xyz"\<close>; a todo whose \<^verbatim>\<open>tags\<close> is \<^verbatim>\<open>null\<close>.
\<close>

definition string_completed_requests :: "todo_request list" where
  "string_completed_requests =
    [PostTodo ''a'' 1 1 [(''title'', Str ''x'')],
     PutTodo 2 3 ''a'' [(''isCompleted'', Str ''false'')]]"

definition unknown_priority_requests :: "todo_request list" where
  "unknown_priority_requests =
    [PostTodo ''L'' 1 1 [(''title'', Str ''L''), (''priority'', Str ''low'')],
     PostTodo ''S'' 2 2 [(''title'', Str ''S''), (''priority'', Str ''someday'')],
     PostTodo ''H'' 3 3 [(''title'', Str ''H''), (''priority'', Str ''high'')]]"

definition string_tags_requests :: "todo_request list" where
  "string_tags_requests = [PostTodo ''X'' 1 1 [(''title'', Str ''X''), (''tags'', Str ''xyz'')]]"

definition null_tags_requests :: "todo_request list" where
  "null_tags_requests = [PostTodo ''N'' 1 1 [(''title'', Str ''N''), (''tags'', Null)]]"

section \<open>Basic facts\<close>

lemma findIndex_Some_less: "findIndex P xs = Some i \<Longrightarrow> i < length xs"
  by (induction xs arbitrary: i) (auto split: if_splits)

lemma findIndex_Some_holds: "findIndex P xs = Some i \<Longrightarrow> P (xs ! i)"
  by (induction xs arbitrary: i) (auto split: if_splits)

lemma findIndex_None_iff: "findIndex P xs = None \<longleftrightarrow> (\<forall>x \<in> set xs. \<not> P x)"
  by (induction xs) auto

lemma findIndex_update_same:
  "(\<And>x. P (f x) = P x) \<Longrightarrow> findIndex P (xs[k := f (xs ! k)]) = findIndex P xs"
proof (induction xs arbitrary: k)
  case Nil
  then show ?case by simp
next
  case (Cons x xs)
  then show ?case by (cases k) auto
qed

lemmas eval_defs =
  new_todo_def post_todo_def put_todo_def patch_complete_def delete_todo_def put_merge_def
  toggle_def
  field_def field_default_def validTypes_includes_def validTypes_def spread_if_def
  js_or_def merge_field_def merge_opt_def ok_def fail_def splice1_def Let_def

section \<open>Toggling completion\<close>

lemma todoId_toggle: "todoId (toggle c u t) = todoId t"
  by (simp add: toggle_def Let_def)

text \<open>
  Claim C1, as the handler has it. Toggling the completion of a stored todo twice
  changes nothing in the collection but that todo, and in that todo only three
  fields: \<^verbatim>\<open>isCompleted\<close> is again what it was (as a boolean: the truth value of the
  original), \<^verbatim>\<open>updatedAt\<close> is the second toggle's reading, and \<^verbatim>\<open>completedAt\<close> is
  \<^verbatim>\<open>null\<close> when the todo was pending and the second toggle's reading when it was
  completed.
\<close>

theorem toggle_twice:
  assumes "findIndex (\<lambda>t. todoId t = i) todos = Some k"
  shows "snd (patch_complete c2 u2 i (snd (patch_complete c1 u1 i todos))) =
     todos[k := (todos ! k)\<lparr>isCompleted := Bool (truthy (isCompleted (todos ! k))),
        completedAt := (if truthy (isCompleted (todos ! k)) then Some c2 else None),
        updatedAt := u2\<rparr>]"
proof -
  have k: "k < length todos"
    using assms by (rule findIndex_Some_less)
  have again: "findIndex (\<lambda>t. todoId t = i) (todos[k := toggle c1 u1 (todos ! k)]) = Some k"
    using findIndex_update_same[of "\<lambda>t. todoId t = i" "toggle c1 u1" todos k] assms
    by (simp add: todoId_toggle)
  show ?thesis
    using assms k again by (simp add: patch_complete_def Let_def toggle_def)
qed

theorem toggle_twice_witness:
  "findIndex (\<lambda>t. todoId t = ''D'') (run_todos example_requests []) = Some 3 \<and>
   map completedAt (snd (patch_complete 7 7 ''D''
     (snd (patch_complete 6 6 ''D'' (run_todos example_requests []))))) =
   [None, None, None, Some 7]"
proof -
  have found: "findIndex (\<lambda>t. todoId t = ''D'') (run_todos example_requests []) = Some 3"
    by (simp add: example_requests_def eval_defs)
  show ?thesis
    using found toggle_twice[OF found, of 7 7 6 6]
    by (simp add: example_requests_def eval_defs)
qed

text \<open>
  The claim as it was written fails for a todo that is completed: after two toggles
  its \<^verbatim>\<open>completedAt\<close> is the time of the second toggle, not \<^verbatim>\<open>null\<close>.
\<close>

theorem toggle_twice_completed_counterexample:
  "map isCompleted (run_todos [PostTodo ''a'' 1 1 [(''title'', Str ''x'')],
      PatchComplete 2 2 ''a''] []) = [Bool True] \<and>
   map completedAt (run_todos [PostTodo ''a'' 1 1 [(''title'', Str ''x'')],
      PatchComplete 2 2 ''a'', PatchComplete 3 3 ''a'', PatchComplete 4 4 ''a''] []) = [Some 4]"
  by (simp add: eval_defs)

section \<open>Invariants of the todo collection\<close>

lemma all_update:
  "\<forall>x \<in> set xs. P x \<Longrightarrow> P y \<Longrightarrow> \<forall>x \<in> set (xs[k := y]). P x"
  using set_update_subset_insert[of xs k y] by auto

lemma all_splice1: "\<forall>x \<in> set xs. P x \<Longrightarrow> \<forall>x \<in> set (splice1 k xs). P x"
  unfolding splice1_def by (auto dest: in_set_takeD in_set_dropD)

text \<open>
  A property of single todos holds throughout a collection after a request when it
  holds before, holds of every todo the create handler builds, and survives the merge
  of an update and a toggle. Deleting only removes.
\<close>

lemma handle_todo_invariant:
  assumes new: "\<And>uuid n1 n2 b. truthy (field b ''title'') \<Longrightarrow>
        validTypes_includes (field_default b ''type'' (Str ''task'')) \<Longrightarrow>
        P (new_todo uuid n1 n2 b)"
    and put: "\<And>c u b t. P t \<Longrightarrow> P (put_merge c u b t)"
    and tog: "\<And>c u t. P t \<Longrightarrow> P (toggle c u t)"
    and inv: "\<forall>t \<in> set todos. P t"
  shows "\<forall>t \<in> set (snd (handle_todo r todos)). P t"
proof (cases r)
  case (PostTodo uuid n1 n2 b)
  then show ?thesis using inv new by (simp add: post_todo_def Let_def)
next
  case (PutTodo c u i b)
  show ?thesis
  proof (cases "findIndex (\<lambda>t. todoId t = i) todos")
    case None
    then show ?thesis using inv PutTodo by (simp add: put_todo_def)
  next
    case (Some k)
    then have "k < length todos" by (rule findIndex_Some_less)
    then have "P (put_merge c u b (todos ! k))" using inv put by simp
    from all_update[OF inv this] show ?thesis
      using PutTodo Some by (simp add: put_todo_def Let_def)
  qed
next
  case (PatchComplete c u i)
  show ?thesis
  proof (cases "findIndex (\<lambda>t. todoId t = i) todos")
    case None
    then show ?thesis using inv PatchComplete by (simp add: patch_complete_def)
  next
    case (Some k)
    then have "k < length todos" by (rule findIndex_Some_less)
    then have "P (toggle c u (todos ! k))" using inv tog by simp
    from all_update[OF inv this] show ?thesis
      using PatchComplete Some by (simp add: patch_complete_def Let_def)
  qed
next
  case (DeleteTodo i)
  show ?thesis
  proof (cases "findIndex (\<lambda>t. todoId t = i) todos")
    case None
    then show ?thesis using inv DeleteTodo by (simp add: delete_todo_def)
  next
    case (Some k)
    from all_splice1[OF inv] show ?thesis
      using DeleteTodo Some by (simp add: delete_todo_def)
  qed
qed

lemma run_todos_invariant:
  assumes new: "\<And>uuid n1 n2 b. truthy (field b ''title'') \<Longrightarrow>
        validTypes_includes (field_default b ''type'' (Str ''task'')) \<Longrightarrow>
        P (new_todo uuid n1 n2 b)"
    and put: "\<And>c u b t. P t \<Longrightarrow> P (put_merge c u b t)"
    and tog: "\<And>c u t. P t \<Longrightarrow> P (toggle c u t)"
  shows "\<forall>t \<in> set todos. P t \<Longrightarrow> \<forall>t \<in> set (run_todos rs todos). P t"
proof (induction rs arbitrary: todos)
  case Nil
  then show ?case by simp
next
  case (Cons r rs)
  have "\<forall>t \<in> set (snd (handle_todo r todos)). P t"
    using new put tog Cons.prems by (rule handle_todo_invariant)
  from Cons.IH[OF this] show ?case by simp
qed

subsection \<open>Completion and its timestamp\<close>

lemma new_todo_completion: "completion_follows_truthiness (new_todo uuid n1 n2 b)"
  by (simp add: completion_follows_truthiness_def new_todo_def Let_def)

lemma isCompleted_put_merge:
  "isCompleted (put_merge c u b old) = merge_field (field b ''isCompleted'') (isCompleted old)"
  by (simp add: put_merge_def Let_def)

text \<open>
  The update rule for the timestamp: set on a change from not completed to completed,
  cleared whenever \<^verbatim>\<open>isCompleted\<close> is supplied false, kept otherwise.
\<close>

lemma completedAt_put_merge:
  "completedAt (put_merge c u b old) =
    (if field b ''isCompleted'' \<noteq> Undefined then
       (if truthy (field b ''isCompleted'') \<and> \<not> truthy (isCompleted old) then Some c
        else if \<not> truthy (field b ''isCompleted'') then None
        else completedAt old)
     else completedAt old)"
  by (simp add: put_merge_def Let_def)

lemma put_merge_completion:
  "completion_follows_truthiness old \<Longrightarrow> completion_follows_truthiness (put_merge c u b old)"
  unfolding completion_follows_truthiness_def isCompleted_put_merge completedAt_put_merge
    merge_field_def
  by auto

lemma toggle_completion: "completion_follows_truthiness (toggle c u old)"
  by (simp add: completion_follows_truthiness_def toggle_def Let_def)

text \<open>
  What the handlers keep, whatever the bodies hold: in every reachable collection a
  todo has a non-null \<^verbatim>\<open>completedAt\<close> if and only if its \<^verbatim>\<open>isCompleted\<close> is truthy. So
  the specification's invariant holds of every stored todo whose \<^verbatim>\<open>isCompleted\<close> is a
  boolean, as the interface declares it.
\<close>

lemma run_todos_completion:
  "\<forall>t \<in> set (run_todos rs []). completion_follows_truthiness t"
  by (rule run_todos_invariant)
     (simp_all add: new_todo_completion put_merge_completion toggle_completion)

lemma run_todos_completion_boolean:
  "t \<in> set (run_todos rs []) \<Longrightarrow> isCompleted t = Bool b \<Longrightarrow> completion_invariant t"
  using run_todos_completion[of rs]
  by (auto simp: completion_follows_truthiness_def completion_invariant_def)

text \<open>
  Claim C2 at a failing input. The update handler stores whatever \<^verbatim>\<open>isCompleted\<close> the
  body holds and tests it as a condition: updating a pending todo with the string
  \<^verbatim>\<open>"false"\<close>, which is truthy, stores the string and stamps \<^verbatim>\<open>completedAt\<close>. The
  stored todo has a non-null \<^verbatim>\<open>completedAt\<close> and an \<^verbatim>\<open>isCompleted\<close> that is not \<^verbatim>\<open>true\<close>.
\<close>

theorem isCompleted_not_validated:
  "map isCompleted (run_todos string_completed_requests []) = [Str ''false''] \<and>
   map completedAt (run_todos string_completed_requests []) = [Some 2] \<and>
   map completion_invariant (run_todos string_completed_requests []) = [False]"
  by (simp add: string_completed_requests_def completion_invariant_def eval_defs)

section \<open>Creating a todo\<close>

lemma validTypes_includes_iff:
  "validTypes_includes v =
    (v \<in> set (map Str [''task'', ''goal'', ''habit'', ''reminder'', ''shopping'', ''idea'', ''bookmark'']))"
  by (auto simp: validTypes_includes_def validTypes_def)

lemma joined_validTypes:
  "join '', '' validTypes = ''task, goal, habit, reminder, shopping, idea, bookmark''"
  by (simp add: validTypes_def)

text \<open>
  Claim C5, as the handler has it. A create request whose \<^verbatim>\<open>type\<close> is present and is
  not one of the seven types is answered 400 and adds nothing. The title is checked
  first: the message lists the seven types when the title is truthy, and is
  "Title is required" when it is not.
\<close>

theorem post_todo_invalid_type:
  assumes "field b ''type'' \<noteq> Undefined"
    and "field b ''type'' \<notin> set (map Str
           [''task'', ''goal'', ''habit'', ''reminder'', ''shopping'', ''idea'', ''bookmark''])"
  shows "post_todo uuid now1 now2 b todos =
    (fail 400
       (if truthy (field b ''title'')
        then ''Invalid type. Must be one of: task, goal, habit, reminder, shopping, idea, bookmark''
        else ''Title is required''),
     todos)"
  using assms
  by (simp add: post_todo_def Let_def field_default_def validTypes_includes_iff
      joined_validTypes del: set_map list.map)

theorem post_todo_invalid_type_witness:
  "field [(''title'', Str ''Buy milk''), (''type'', Str ''chore'')] ''type'' \<noteq> Undefined \<and>
   field [(''title'', Str ''Buy milk''), (''type'', Str ''chore'')] ''type'' \<notin> set (map Str
      [''task'', ''goal'', ''habit'', ''reminder'', ''shopping'', ''idea'', ''bookmark'']) \<and>
   post_todo ''u'' 1 1 [(''title'', Str ''Buy milk''), (''type'', Str ''chore'')] [] =
     (fail 400
        ''Invalid type. Must be one of: task, goal, habit, reminder, shopping, idea, bookmark'',
      [])"
proof -
  have p: "field [(''title'', Str ''Buy milk''), (''type'', Str ''chore'')] ''type'' \<noteq> Undefined"
    by (simp add: field_def)
  have v: "field [(''title'', Str ''Buy milk''), (''type'', Str ''chore'')] ''type'' \<notin> set (map Str
      [''task'', ''goal'', ''habit'', ''reminder'', ''shopping'', ''idea'', ''bookmark''])"
    by (simp add: field_def)
  show ?thesis
    using p v post_todo_invalid_type[OF p v, of "''u''" 1 1 "[]"]
    by (simp add: field_def)
qed

text \<open>
  The claim as it was written fails when the request has no title: the answer is
  still 400, but its message does not list the types.
\<close>

theorem post_todo_invalid_type_no_title_counterexample:
  "post_todo ''u'' 1 1 [(''type'', Str ''chore'')] [] = (fail 400 ''Title is required'', [])"
  by (simp add: post_todo_def Let_def field_def field_default_def)

text \<open>
  Claim C6 at three inputs. A create request that omits \<^verbatim>\<open>priority\<close> stores
  \<^verbatim>\<open>medium\<close>; but neither handler checks a supplied priority, so a create request
  stores the priority \<^verbatim>\<open>someday\<close> and an update stores the number 5.
\<close>

theorem priority_not_validated:
  "map priority (run_todos
      [PostTodo ''a'' 1 1 [(''title'', Str ''x'')]] []) = [Str ''medium''] \<and>
   map priority (run_todos
      [PostTodo ''a'' 1 1 [(''title'', Str ''x''), (''priority'', Str ''someday'')]] []) =
     [Str ''someday''] \<and>
   map priority (run_todos
      [PostTodo ''a'' 1 1 [(''title'', Str ''x'')],
       PutTodo 2 2 ''a'' [(''priority'', Num 5)]] []) = [Num 5]"
  by (simp add: eval_defs)

lemma new_todo_type_fields:
  "todoType (new_todo uuid now1 now2 b) = field_default b ''type'' (Str ''task'')"
  "habitFrequency (new_todo uuid now1 now2 b) =
     (if field_default b ''type'' (Str ''task'') = Str ''habit''
      then Some (if truthy (field b ''habitFrequency'') then field b ''habitFrequency''
                 else Str ''daily'')
      else None)"
  "reminderTime (new_todo uuid now1 now2 b) =
     (if field_default b ''type'' (Str ''task'') = Str ''reminder''
      then Some (field b ''reminderTime'') else None)"
  "url (new_todo uuid now1 now2 b) =
     (if field_default b ''type'' (Str ''task'') = Str ''bookmark''
      then Some (field b ''url'') else None)"
  "quantity (new_todo uuid now1 now2 b) =
     (if field_default b ''type'' (Str ''task'') = Str ''shopping''
      then Some (if truthy (field b ''quantity'') then field b ''quantity'' else Num 1)
      else None)"
  by (simp_all add: new_todo_def Let_def spread_if_def js_or_def)

lemma post_todo_created:
  assumes "post_todo uuid now1 now2 b todos = (r, todos')" and "status r = 201"
  shows "r = ok 201 (new_todo uuid now1 now2 b) \<and> todos' = todos @ [new_todo uuid now1 now2 b]"
  using assms
  by (auto simp: post_todo_def Let_def fail_def ok_def split: if_splits)

text \<open>
  Claim C8. A successful create request appends the todo it answers with, and that
  todo has the property \<^verbatim>\<open>habitFrequency\<close> exactly when its type is \<^verbatim>\<open>habit\<close> (the
  supplied value, or \<^verbatim>\<open>daily\<close> when none or a falsy one is supplied), \<^verbatim>\<open>reminderTime\<close>
  exactly when it is \<^verbatim>\<open>reminder\<close>, \<^verbatim>\<open>url\<close> exactly when it is \<^verbatim>\<open>bookmark\<close> (both as
  supplied), and \<^verbatim>\<open>quantity\<close> exactly when it is \<^verbatim>\<open>shopping\<close> (the supplied value, or 1).
  A todo of another type has none of the four, whatever the request supplies.
\<close>

theorem post_todo_type_fields:
  assumes "post_todo uuid now1 now2 b todos = (r, todos')" and "status r = 201"
  shows "\<exists>t. data r = Some t \<and> todos' = todos @ [t] \<and>
     todoType t = field_default b ''type'' (Str ''task'') \<and>
     habitFrequency t =
       (if todoType t = Str ''habit''
        then Some (if truthy (field b ''habitFrequency'') then field b ''habitFrequency''
                   else Str ''daily'')
        else None) \<and>
     reminderTime t =
       (if todoType t = Str ''reminder'' then Some (field b ''reminderTime'') else None) \<and>
     url t = (if todoType t = Str ''bookmark'' then Some (field b ''url'') else None) \<and>
     quantity t =
       (if todoType t = Str ''shopping''
        then Some (if truthy (field b ''quantity'') then field b ''quantity'' else Num 1)
        else None)"
proof -
  from post_todo_created[OF assms]
  have r: "r = ok 201 (new_todo uuid now1 now2 b)"
    and s: "todos' = todos @ [new_todo uuid now1 now2 b]" by simp_all
  show ?thesis
    by (rule exI[of _ "new_todo uuid now1 now2 b"])
       (simp add: r s ok_def new_todo_type_fields)
qed

theorem post_todo_type_fields_witness:
  "status (fst (post_todo ''u'' 1 2
      [(''title'', Str ''Milk''), (''type'', Str ''shopping''),
       (''url'', Str ''https://example.org''), (''habitFrequency'', Str ''weekly'')] [])) = 201 \<and>
   map habitFrequency (snd (post_todo ''u'' 1 2
      [(''title'', Str ''Milk''), (''type'', Str ''shopping''),
       (''url'', Str ''https://example.org''), (''habitFrequency'', Str ''weekly'')] [])) = [None] \<and>
   map url (snd (post_todo ''u'' 1 2
      [(''title'', Str ''Milk''), (''type'', Str ''shopping''),
       (''url'', Str ''https://example.org''), (''habitFrequency'', Str ''weekly'')] [])) = [None] \<and>
   map quantity (snd (post_todo ''u'' 1 2
      [(''title'', Str ''Milk''), (''type'', Str ''shopping''),
       (''url'', Str ''https://example.org''), (''habitFrequency'', Str ''weekly'')] [])) =
     [Some (Num 1)]"
proof -
  let ?b = "[(''title'', Str ''Milk''), (''type'', Str ''shopping''),
       (''url'', Str ''https://example.org''), (''habitFrequency'', Str ''weekly'')]"
  let ?p = "post_todo ''u'' 1 2 ?b []"
  have e: "?p = (fst ?p, snd ?p)" by simp
  have c: "status (fst ?p) = 201"
    by (simp add: eval_defs)
  from post_todo_type_fields[OF e c] obtain t where
    t: "snd ?p = [] @ [t]" "todoType t = field_default ?b ''type'' (Str ''task'')"
      "habitFrequency t = (if todoType t = Str ''habit''
        then Some (if truthy (field ?b ''habitFrequency'') then field ?b ''habitFrequency''
                   else Str ''daily'') else None)"
      "url t = (if todoType t = Str ''bookmark'' then Some (field ?b ''url'') else None)"
      "quantity t = (if todoType t = Str ''shopping''
        then Some (if truthy (field ?b ''quantity'') then field ?b ''quantity'' else Num 1)
        else None)"
    by blast
  have ty: "todoType t = Str ''shopping''"
    using t(2) by (simp add: field_default_def field_def)
  show ?thesis
    using c t(1) t(3-5) unfolding ty by (simp add: field_def)
qed

section \<open>Updating a todo\<close>

lemma put_merge_frame:
  "todoId (put_merge c u b old) = todoId old"
  "todoType (put_merge c u b old) = todoType old"
  "createdAt (put_merge c u b old) = createdAt old"
  by (simp_all add: put_merge_def Let_def)

text \<open>
  Claim C10. An update of an existing todo, whatever the body holds (a \<^verbatim>\<open>type\<close>,
  an \<^verbatim>\<open>id\<close>), replaces the todo in place by one with the same \<^verbatim>\<open>id\<close>, \<^verbatim>\<open>type\<close> and
  \<^verbatim>\<open>createdAt\<close>: the collection keeps its length, and the identifiers and types it
  holds at each position.
\<close>

theorem put_todo_frame:
  assumes "findIndex (\<lambda>t. todoId t = i) todos = Some k"
  shows "\<exists>t'. put_todo nowC nowU i b todos = (ok 200 t', todos[k := t']) \<and>
     todoId t' = todoId (todos ! k) \<and>
     todoType t' = todoType (todos ! k) \<and>
     createdAt t' = createdAt (todos ! k) \<and>
     length (todos[k := t']) = length todos \<and>
     map todoId (todos[k := t']) = map todoId todos \<and>
     map todoType (todos[k := t']) = map todoType todos"
proof -
  have k: "k < length todos"
    using assms by (rule findIndex_Some_less)
  have "map todoId (todos[k := put_merge nowC nowU b (todos ! k)]) = map todoId todos"
    "map todoType (todos[k := put_merge nowC nowU b (todos ! k)]) = map todoType todos"
    using k by (simp_all add: map_update put_merge_frame list_update_same_conv)
  then show ?thesis
    using assms k
    by (intro exI[of _ "put_merge nowC nowU b (todos ! k)"])
       (simp add: put_todo_def Let_def put_merge_frame)
qed

theorem put_todo_frame_witness:
  "findIndex (\<lambda>t. todoId t = ''B'') (run_todos example_requests []) = Some 1 \<and>
   map todoType (snd (put_todo 6 6 ''B''
      [(''type'', Str ''goal''), (''id'', Str ''Z''), (''title'', Str ''renamed'')]
      (run_todos example_requests []))) = [Str ''task'', Str ''task'', Str ''task'', Str ''task''] \<and>
   map todoId (snd (put_todo 6 6 ''B''
      [(''type'', Str ''goal''), (''id'', Str ''Z''), (''title'', Str ''renamed'')]
      (run_todos example_requests []))) = [''A'', ''B'', ''C'', ''D'']"
proof -
  have found: "findIndex (\<lambda>t. todoId t = ''B'') (run_todos example_requests []) = Some 1"
    by (simp add: example_requests_def eval_defs)
  have ids: "map todoId (run_todos example_requests []) = [''A'', ''B'', ''C'', ''D'']"
    and types: "map todoType (run_todos example_requests []) =
      [Str ''task'', Str ''task'', Str ''task'', Str ''task'']"
    by (simp_all add: example_requests_def eval_defs)
  from put_todo_frame[OF found, of 6 6
      "[(''type'', Str ''goal''), (''id'', Str ''Z''), (''title'', Str ''renamed'')]"]
  show ?thesis
    using found ids types by auto
qed

section \<open>Listing todos: the filters\<close>


lemma strict_eq_Bool: "strict_eq v (Bool b) = (v = Bool b)"
  by (cases v) auto

lemma bindE_Inr: "bindE (Inr x) f = f x"
  by (simp add: bindE_def)

lemma bindE_Inl: "bindE (Inl e) f = Inl e"
  by (simp add: bindE_def)

lemma filterE_total:
  "(\<And>x. x \<in> set xs \<Longrightarrow> p x = Inr (P x)) \<Longrightarrow> filterE p xs = Inr (filter P xs)"
  by (induction xs) auto

lemma param_supplied:
  "string_param p \<Longrightarrow> param p = map_option QStr (supplied p)"
  by (auto simp: string_param_def supplied_def param_def split: option.splits qsval.splits)

lemma stage:
  assumes "string_param p"
  shows "(case param p of None \<Rightarrow> xs | Some v \<Rightarrow> filter (P v) xs) =
   filter (\<lambda>t. case supplied p of None \<Rightarrow> True | Some s \<Rightarrow> P (QStr s) t) xs"
  unfolding param_supplied[OF assms] by (cases "supplied p") auto

lemma stageE:
  assumes "string_param p"
    and "\<And>s x. x \<in> set xs \<Longrightarrow> pE (QStr s) x = Inr (P s x)"
  shows "(case param p of None \<Rightarrow> Inr xs | Some v \<Rightarrow> filterE (pE v) xs) =
   Inr (filter (\<lambda>t. case supplied p of None \<Rightarrow> True | Some s \<Rightarrow> P s t) xs)"
  unfolding param_supplied[OF assms(1)] using assms(2)
  by (cases "supplied p") (auto intro: filterE_total)

lemma tags_includes_filterable:
  "filterable t \<Longrightarrow> tags_includes (tags t) (QStr g) = Inr (has_tag t g)"
  by (auto simp: filterable_def has_tag_def split: jsval.splits)

lemma search_hit_filterable:
  "filterable t \<Longrightarrow>
   search_hit L (L s) t = Inr (contains_ci L (title t) s \<or> contains_ci L (description t) s)"
  by (auto simp: filterable_def search_hit_def contains_ci_def split: jsval.splits bool.splits)

lemma due_before_filterable:
  "filterable t \<Longrightarrow> D (Str []) = None \<Longrightarrow>
   due_before D (QStr d) t = Inr (dueDate t \<noteq> Null \<and> date_le (D (dueDate t)) (D (Str d)))"
  by (auto simp: filterable_def due_before_def date_time_def bindE_def date_le_def
      split: jsval.splits option.splits)

lemma due_after_filterable:
  "filterable t \<Longrightarrow> D (Str []) = None \<Longrightarrow>
   due_after D (QStr d) t = Inr (dueDate t \<noteq> Null \<and> date_le (D (Str d)) (D (dueDate t)))"
  by (auto simp: filterable_def due_after_def date_time_def bindE_def date_le_def
      split: jsval.splits option.splits)

text \<open>
  On stored todos of the declared types and a query of strings, the filters never
  throw and return, in stored order, exactly the todos that satisfy every supplied
  filter.
\<close>

lemma filter_todos_spec:
  assumes typed: "\<forall>t \<in> set todos. filterable t" and empty: "D (Str []) = None"
    and strings: "string_query q"
  shows "filter_todos L D q todos = Inr (filter (spec_matches L D q) todos)"
proof -
  define P1 where "P1 = (\<lambda>t::Todo. case supplied (q_type q) of None \<Rightarrow> True
     | Some ty \<Rightarrow> todoType t = Str ty)"
  define P2 where "P2 = (\<lambda>t::Todo. case supplied (q_priority q) of None \<Rightarrow> True
     | Some p \<Rightarrow> priority t = Str p)"
  define P3 where "P3 = (\<lambda>t::Todo. case q_completed q of None \<Rightarrow> True
     | Some c \<Rightarrow> isCompleted t = Bool (c = QStr ''true''))"
  define P4 where "P4 = (\<lambda>t::Todo. case supplied (q_tag q) of None \<Rightarrow> True
     | Some g \<Rightarrow> has_tag t g)"
  define P5 where "P5 = (\<lambda>t::Todo. case supplied (q_search q) of None \<Rightarrow> True
     | Some s \<Rightarrow> contains_ci L (title t) s \<or> contains_ci L (description t) s)"
  define P6 where "P6 = (\<lambda>t::Todo. case supplied (q_dueBefore q) of None \<Rightarrow> True
     | Some d \<Rightarrow> dueDate t \<noteq> Null \<and> date_le (D (dueDate t)) (D (Str d)))"
  define P7 where "P7 = (\<lambda>t::Todo. case supplied (q_dueAfter q) of None \<Rightarrow> True
     | Some d \<Rightarrow> dueDate t \<noteq> Null \<and> date_le (D (Str d)) (D (dueDate t)))"
  have sp: "string_param (q_type q)" "string_param (q_priority q)" "string_param (q_tag q)"
    "string_param (q_search q)" "string_param (q_dueBefore q)" "string_param (q_dueAfter q)"
    using strings by (simp_all add: string_query_def)
  have s1: "(case param (q_type q) of None \<Rightarrow> todos
      | Some ty \<Rightarrow> filter (\<lambda>t. eq_param (todoType t) ty) todos) = filter P1 todos"
    unfolding P1_def stage[OF sp(1)] by (simp add: eq_param_def cong: option.case_cong)
  have s2: "(case param (q_priority q) of None \<Rightarrow> xs
      | Some p \<Rightarrow> filter (\<lambda>t. eq_param (priority t) p) xs) = filter P2 xs" for xs
    unfolding P2_def stage[OF sp(2)] by (simp add: eq_param_def cong: option.case_cong)
  have s3: "(case q_completed q of None \<Rightarrow> xs
      | Some c \<Rightarrow> filter (\<lambda>t. strict_eq (isCompleted t) (Bool (c = QStr ''true''))) xs) =
      filter P3 xs" for xs
    unfolding P3_def by (cases "q_completed q") (simp_all add: strict_eq_Bool)
  have s4: "(case param (q_tag q) of None \<Rightarrow> Inr xs
       | Some g \<Rightarrow> filterE (\<lambda>t. tags_includes (tags t) g) xs) = Inr (filter P4 xs)"
    if "set xs \<subseteq> set todos" for xs
    unfolding P4_def using that typed
    by (intro stageE[OF sp(3), where pE = "\<lambda>g t. tags_includes (tags t) g"])
       (auto simp: tags_includes_filterable)
  have s5: "(case param (q_search q) of None \<Rightarrow> Inr xs
       | Some s \<Rightarrow> bindE (search_lower L s) (\<lambda>searchLower.
            filterE (search_hit L searchLower) xs)) = Inr (filter P5 xs)"
    if "set xs \<subseteq> set todos" for xs
  proof -
    have "(case param (q_search q) of None \<Rightarrow> Inr xs
       | Some s \<Rightarrow> bindE (search_lower L s) (\<lambda>searchLower.
            filterE (search_hit L searchLower) xs)) =
      (case param (q_search q) of None \<Rightarrow> Inr xs
       | Some s \<Rightarrow> filterE (\<lambda>t. bindE (search_lower L s) (\<lambda>sl. search_hit L sl t)) xs)"
      unfolding param_supplied[OF sp(4)]
      by (cases "supplied (q_search q)") (simp_all add: search_lower_def bindE_def)
    also have "\<dots> = Inr (filter P5 xs)"
      unfolding P5_def using that typed
      by (intro stageE[OF sp(4),
            where pE = "\<lambda>s t. bindE (search_lower L s) (\<lambda>sl. search_hit L sl t)"])
         (auto simp: search_lower_def bindE_def search_hit_filterable)
    finally show ?thesis .
  qed
  have s6: "(case param (q_dueBefore q) of None \<Rightarrow> Inr xs
       | Some d \<Rightarrow> filterE (due_before D d) xs) = Inr (filter P6 xs)"
    if "set xs \<subseteq> set todos" for xs
    unfolding P6_def using that typed empty
    by (intro stageE[OF sp(5), where pE = "due_before D"])
       (auto simp: due_before_filterable)
  have s7: "(case param (q_dueAfter q) of None \<Rightarrow> Inr xs
       | Some d \<Rightarrow> filterE (due_after D d) xs) = Inr (filter P7 xs)"
    if "set xs \<subseteq> set todos" for xs
    unfolding P7_def using that typed empty
    by (intro stageE[OF sp(6), where pE = "due_after D"])
       (auto simp: due_after_filterable)
  define f3 where "f3 = filter P3 (filter P2 (filter P1 todos))"
  have sub: "set f3 \<subseteq> set todos" "set (filter P4 f3) \<subseteq> set todos"
    "set (filter P5 (filter P4 f3)) \<subseteq> set todos"
    "set (filter P6 (filter P5 (filter P4 f3))) \<subseteq> set todos"
    by (auto simp: f3_def)
  have "filter_todos L D q todos =
      bindE (case param (q_tag q) of None \<Rightarrow> Inr f3
             | Some g \<Rightarrow> filterE (\<lambda>t. tags_includes (tags t) g) f3) (\<lambda>f4.
      bindE (case param (q_search q) of None \<Rightarrow> Inr f4
             | Some s \<Rightarrow> bindE (search_lower L s) (\<lambda>searchLower.
                  filterE (search_hit L searchLower) f4)) (\<lambda>f5.
      bindE (case param (q_dueBefore q) of None \<Rightarrow> Inr f5
             | Some d \<Rightarrow> filterE (due_before D d) f5) (\<lambda>f6.
      (case param (q_dueAfter q) of None \<Rightarrow> Inr f6
       | Some d \<Rightarrow> filterE (due_after D d) f6))))"
    unfolding filter_todos_def Let_def s1 s2 s3 f3_def ..
  also have "\<dots> = Inr (filter P7 (filter P6 (filter P5 (filter P4 f3))))"
    by (simp only: s4[OF sub(1)] bindE_Inr s5[OF sub(2)] s6[OF sub(3)] s7[OF sub(4)])
  finally have code: "filter_todos L D q todos =
      Inr (filter P7 (filter P6 (filter P5 (filter P4 f3))))" .
  have "filter P7 (filter P6 (filter P5 (filter P4 f3))) =
      filter (\<lambda>t. P1 t \<and> P2 t \<and> P3 t \<and> P4 t \<and> P5 t \<and> P6 t \<and> P7 t) todos"
    unfolding f3_def filter_filter by (rule filter_cong[OF refl]) blast
  also have "\<dots> = filter (spec_matches L D q) todos"
    unfolding P1_def P2_def P3_def P4_def P5_def P6_def P7_def spec_matches_def ..
  finally show ?thesis using code by simp
qed

section \<open>Listing todos: the order\<close>

subsection \<open>The sort returns what it was given, reordered\<close>



lemma mset_insert_at: "mset (take k a @ p # drop k a) = add_mset p (mset a)"
  by (metis append_take_drop_id mset.simps(2) mset_append union_mset_add_mset_right)

lemma binary_insertion_sort_mset:
  "binary_insertion_sort c a rest = Inr ys \<Longrightarrow> mset ys = mset a + mset rest"
proof (induction rest arbitrary: a)
  case Nil
  then show ?case by simp
next
  case (Cons p rest)
  then obtain k where
    b: "binary_insertion_sort c (take k a @ p # drop k a) rest = Inr ys"
    by (auto split: sum.splits)
  from Cons.IH[OF b] show ?case
    unfolding mset_insert_at by simp
qed




subsection \<open>With a consistent comparator the sort is the stable sort\<close>

lemma agreesD:
  "agrees c f S \<Longrightarrow> x \<in> S \<Longrightarrow> y \<in> S \<Longrightarrow>
   \<exists>n. sort_compare (c x y) = Inr n \<and> (n < 0) = (f x < f y)"
  by (auto simp: agrees_def)

lemma extend_run_ascending:
  assumes "agrees c f S"
  shows "p \<in> S \<Longrightarrow> set xs \<subseteq> S \<Longrightarrow>
    \<exists>run rest. extend_run c False p xs = Inr (run, rest) \<and> run @ rest = xs \<and>
      sorted (map f (p # run))"
proof (induction xs arbitrary: p)
  case Nil
  then show ?case by simp
next
  case (Cons x xs)
  from agreesD[OF assms, of x p] Cons.prems obtain n where
    n: "sort_compare (c x p) = Inr n" "(n < 0) = (f x < f p)" by auto
  show ?case
  proof (cases "n < 0")
    case True
    then show ?thesis using n by simp
  next
    case False
    from Cons.IH[of x] Cons.prems obtain run rest where
      r: "extend_run c False x xs = Inr (run, rest)" "run @ rest = xs"
        "sorted (map f (x # run))" by auto
    have "f p \<le> f x" using False n by simp
    then have "sorted (map f (p # x # run))" using r(3) by auto
    then show ?thesis using n False r by simp
  qed
qed

lemma extend_run_descending:
  assumes "agrees c f S"
  shows "p \<in> S \<Longrightarrow> set xs \<subseteq> S \<Longrightarrow>
    \<exists>run rest. extend_run c True p xs = Inr (run, rest) \<and> run @ rest = xs \<and>
      sorted_wrt (\<lambda>a b. f b < f a) (p # run)"
proof (induction xs arbitrary: p)
  case Nil
  then show ?case by simp
next
  case (Cons x xs)
  from agreesD[OF assms, of x p] Cons.prems obtain n where
    n: "sort_compare (c x p) = Inr n" "(n < 0) = (f x < f p)" by auto
  show ?case
  proof (cases "n < 0")
    case False
    then show ?thesis using n by simp
  next
    case True
    from Cons.IH[of x] Cons.prems obtain run rest where
      r: "extend_run c True x xs = Inr (run, rest)" "run @ rest = xs"
        "sorted_wrt (\<lambda>a b. f b < f a) (x # run)" by auto
    have "f x < f p" using True n by simp
    then have "sorted_wrt (\<lambda>a b. f b < f a) (p # x # run)" using r(3) by fastforce
    then show ?thesis using n True r by simp
  qed
qed

lemma filter_rev_descending:
  fixes f :: "'a \<Rightarrow> 'k::linorder"
  shows "sorted_wrt (\<lambda>a b. f b < f a) l \<Longrightarrow>
   filter (\<lambda>x. f x = k) (rev l) = filter (\<lambda>x. f x = k) l"
proof (induction l)
  case Nil
  then show ?case by simp
next
  case (Cons a l)
  then have "f a = k \<Longrightarrow> filter (\<lambda>x. f x = k) l = []"
    by (auto simp: filter_empty_conv)
  then show ?case using Cons by auto
qed

lemma sorted_rev_descending:
  "sorted_wrt (\<lambda>a b. f b < f a) l \<Longrightarrow> sorted (map f (rev l))"
proof -
  assume "sorted_wrt (\<lambda>a b. f b < f a) l"
  then have "sorted_wrt (\<lambda>a b. f a < f b) (rev l)"
    by (simp add: sorted_wrt_rev)
  then have "sorted_wrt (\<lambda>a b. f a \<le> f b) (rev l)"
    by (rule sorted_wrt_mono_rel[rotated]) auto
  then show ?thesis by (simp add: sorted_map)
qed

lemma count_and_make_run_sorted:
  assumes "agrees c f S" and "x0 \<in> S" and "x1 \<in> S" and "set xs \<subseteq> S"
  shows "\<exists>run rest. count_and_make_run c x0 x1 xs = Inr (run, rest) \<and>
     sorted (map f run) \<and> mset run + mset rest = mset (x0 # x1 # xs) \<and>
     (\<forall>k. filter (\<lambda>x. f x = k) (run @ rest) = filter (\<lambda>x. f x = k) (x0 # x1 # xs))"
proof -
  from agreesD[OF assms(1), of x1 x0] assms obtain n where
    n: "sort_compare (c x1 x0) = Inr n" "(n < 0) = (f x1 < f x0)" by auto
  show ?thesis
  proof (cases "n < 0")
    case True
    from extend_run_descending[OF assms(1) assms(3) assms(4)] obtain run rest where
      r: "extend_run c True x1 xs = Inr (run, rest)" "run @ rest = xs"
        "sorted_wrt (\<lambda>a b. f b < f a) (x1 # run)" by auto
    have d: "sorted_wrt (\<lambda>a b. f b < f a) (x0 # x1 # run)"
      using r(3) True n by fastforce
    have c: "count_and_make_run c x0 x1 xs = Inr (rev (x0 # x1 # run), rest)"
      using n True r(1) by (simp add: count_and_make_run_def)
    have st: "filter (\<lambda>x. f x = k) (rev (x0 # x1 # run) @ rest) =
        filter (\<lambda>x. f x = k) (x0 # x1 # xs)" for k
      using filter_rev_descending[OF d, of k] r(2) by (simp del: rev.simps) auto
    show ?thesis
      using c sorted_rev_descending[OF d] st r(2)
      by (intro exI[of _ "rev (x0 # x1 # run)"] exI[of _ rest]) auto
  next
    case False
    from extend_run_ascending[OF assms(1) assms(3) assms(4)] obtain run rest where
      r: "extend_run c False x1 xs = Inr (run, rest)" "run @ rest = xs"
        "sorted (map f (x1 # run))" by auto
    have "f x0 \<le> f x1" using False n by simp
    then have s: "sorted (map f (x0 # x1 # run))" using r(3) by auto
    have c: "count_and_make_run c x0 x1 xs = Inr (x0 # x1 # run, rest)"
      using n False r(1) by (simp add: count_and_make_run_def)
    show ?thesis
      using c s r(2)
      by (intro exI[of _ "x0 # x1 # run"] exI[of _ rest]) auto
  qed
qed

lemma binary_search_correct:
  fixes f :: "'a \<Rightarrow> 'k::linorder"
  assumes ag: "agrees c f S" and p: "p \<in> S" and a: "set a \<subseteq> S"
    and sorted: "sorted (map f a)"
  shows "l \<le> r \<Longrightarrow> r \<le> length a \<Longrightarrow> (\<forall>i<l. f (a ! i) \<le> f p) \<Longrightarrow>
    (\<forall>i. r \<le> i \<and> i < length a \<longrightarrow> f p < f (a ! i)) \<Longrightarrow>
    \<exists>k. binary_search c p a l r = Inr k \<and> k \<le> length a \<and>
      (\<forall>i<k. f (a ! i) \<le> f p) \<and> (\<forall>i. k \<le> i \<and> i < length a \<longrightarrow> f p < f (a ! i))"
proof (induction "r - l" arbitrary: l r rule: less_induct)
  case less
  show ?case
  proof (cases "l < r")
    case False
    then have "l = r" using less.prems(1) by simp
    then show ?thesis
      using less.prems by (subst binary_search.simps) auto
  next
    case True
    define mid where "mid = l + (r - l) div 2"
    have mid: "l \<le> mid" "mid < r" using True by (auto simp: mid_def)
    then have in_a: "a ! mid \<in> S" using a less.prems(2) by (auto simp: subset_iff)
    from agreesD[OF ag p in_a] obtain n where
      n: "sort_compare (c p (a ! mid)) = Inr n" "(n < 0) = (f p < f (a ! mid))" by auto
    have le: "f (a ! i) \<le> f (a ! j)" if "i \<le> j" "j < length a" for i j
      using sorted that by (simp add: sorted_iff_nth_mono)
    show ?thesis
    proof (cases "n < 0")
      case True
      have up: "\<forall>i. mid \<le> i \<and> i < length a \<longrightarrow> f p < f (a ! i)"
        using True n(2) le by (meson less_le_trans)
      have "\<exists>k. binary_search c p a l mid = Inr k \<and> k \<le> length a \<and>
          (\<forall>i<k. f (a ! i) \<le> f p) \<and> (\<forall>i. k \<le> i \<and> i < length a \<longrightarrow> f p < f (a ! i))"
        using mid less.prems up by (intro less.hyps) auto
      then show ?thesis
        using \<open>l < r\<close> n(1) True
        by (subst binary_search.simps) (simp add: mid_def)
    next
      case False
      then have "f (a ! mid) \<le> f p" using n(2) by simp
      then have low: "\<forall>i<mid + 1. f (a ! i) \<le> f p"
        using le mid less.prems(2)
        by (metis Suc_eq_plus1 le_trans less_Suc_eq_le less_le_trans order_trans)
      have "\<exists>k. binary_search c p a (mid + 1) r = Inr k \<and> k \<le> length a \<and>
          (\<forall>i<k. f (a ! i) \<le> f p) \<and> (\<forall>i. k \<le> i \<and> i < length a \<longrightarrow> f p < f (a ! i))"
        using mid less.prems low by (intro less.hyps) auto
      then show ?thesis
        using \<open>l < r\<close> n(1) False
        by (subst binary_search.simps) (simp add: mid_def)
    qed
  qed
qed

lemma insert_at_sorted:
  fixes f :: "'a \<Rightarrow> 'k::linorder"
  assumes "sorted (map f a)" and "k \<le> length a"
    and "\<forall>i<k. f (a ! i) \<le> f p" and "\<forall>i. k \<le> i \<and> i < length a \<longrightarrow> f p < f (a ! i)"
  shows "sorted (map f (take k a @ p # drop k a))"
    and "filter (\<lambda>x. f x = key) (take k a @ p # drop k a) = filter (\<lambda>x. f x = key) (a @ [p])"
proof -
  have lo: "\<forall>x \<in> set (take k a). f x \<le> f p"
    using assms(2,3) by (auto simp: in_set_conv_nth)
  have hi: "\<forall>x \<in> set (drop k a). f p < f x"
    using assms(2,4) by (auto simp: in_set_conv_nth)
  have s: "sorted (map f (take k a))" "sorted (map f (drop k a))"
    using assms(1) by (simp_all add: sorted_map sorted_wrt_take sorted_wrt_drop)
  show "sorted (map f (take k a @ p # drop k a))"
    using s lo hi by (auto simp: sorted_append) (meson le_less_trans less_imp_le)
  have "filter (\<lambda>x. f x = key) (drop k a) = []" if "f p = key"
    using hi that by (auto simp: filter_empty_conv)
  moreover have "filter (\<lambda>x. f x = key) (a @ [p]) =
      filter (\<lambda>x. f x = key) (take k a) @ filter (\<lambda>x. f x = key) (drop k a) @
      filter (\<lambda>x. f x = key) [p]"
    by (metis append_take_drop_id filter_append append_assoc)
  ultimately show "filter (\<lambda>x. f x = key) (take k a @ p # drop k a) =
      filter (\<lambda>x. f x = key) (a @ [p])"
    by auto
qed

lemma binary_insertion_sort_sorted:
  fixes f :: "'a \<Rightarrow> 'k::linorder"
  assumes ag: "agrees c f S"
  shows "sorted (map f a) \<Longrightarrow> set a \<subseteq> S \<Longrightarrow> set rest \<subseteq> S \<Longrightarrow>
    \<exists>ys. binary_insertion_sort c a rest = Inr ys \<and> sorted (map f ys) \<and>
      (\<forall>key. filter (\<lambda>x. f x = key) ys = filter (\<lambda>x. f x = key) (a @ rest))"
proof (induction rest arbitrary: a)
  case Nil
  then show ?case by simp
next
  case (Cons p rest)
  have p: "p \<in> S" using Cons.prems(3) by simp
  have "\<forall>i. length a \<le> i \<and> i < length a \<longrightarrow> f p < f (a ! i)" by auto
  moreover have "\<forall>i<0::nat. f (a ! i) \<le> f p" by simp
  ultimately obtain k where
    k: "binary_search c p a 0 (length a) = Inr k" "k \<le> length a"
      "\<forall>i<k. f (a ! i) \<le> f p" "\<forall>i. k \<le> i \<and> i < length a \<longrightarrow> f p < f (a ! i)"
    using binary_search_correct[OF ag p Cons.prems(2) Cons.prems(1), of 0 "length a"]
    by blast
  let ?a = "take k a @ p # drop k a"
  have s: "sorted (map f ?a)"
    and st: "\<And>key. filter (\<lambda>x. f x = key) ?a = filter (\<lambda>x. f x = key) (a @ [p])"
    using insert_at_sorted[OF Cons.prems(1) k(2) k(3) k(4)] by blast+
  have sub: "set ?a \<subseteq> S"
    using Cons.prems(2) p by (auto dest: in_set_takeD in_set_dropD)
  from Cons.IH[OF s sub] Cons.prems(3) obtain ys where
    ys: "binary_insertion_sort c ?a rest = Inr ys" "sorted (map f ys)"
      "\<forall>key. filter (\<lambda>x. f x = key) ys = filter (\<lambda>x. f x = key) (?a @ rest)"
    by auto
  have "filter (\<lambda>x. f x = key) ys = filter (\<lambda>x. f x = key) (a @ p # rest)" for key
  proof -
    have "filter (\<lambda>x. f x = key) ys =
        filter (\<lambda>x. f x = key) ?a @ filter (\<lambda>x. f x = key) rest"
      using ys(3) by (simp only: filter_append)
    also have "\<dots> = filter (\<lambda>x. f x = key) (a @ [p]) @ filter (\<lambda>x. f x = key) rest"
      by (simp only: st)
    also have "\<dots> = filter (\<lambda>x. f x = key) (a @ p # rest)"
      by simp
    finally show ?thesis .
  qed
  then show ?case
    using k(1) ys(1,2) by simp
qed

text \<open>
  With a comparator that agrees with a key on the elements of the list, the sort
  does not throw and returns the stable sort by that key.
\<close>

lemma array_sort_sort_key:
  fixes f :: "'a \<Rightarrow> 'k::linorder"
  assumes ag: "agrees c f (set xs)"
  shows "array_sort c xs = Inr (sort_key f xs)"
proof -
  have "\<exists>ys. array_sort c xs = Inr ys \<and> sorted (map f ys) \<and> mset ys = mset xs \<and>
      (\<forall>key. filter (\<lambda>x. f x = key) ys = filter (\<lambda>x. f x = key) xs)"
  proof (cases xs)
    case Nil
    then show ?thesis by simp
  next
    case (Cons x0 xs1)
    show ?thesis
    proof (cases xs1)
      case Nil
      then show ?thesis using Cons by simp
    next
      case (Cons x1 xs2)
      have xs: "xs = x0 # x1 # xs2" using \<open>xs = x0 # xs1\<close> Cons by simp
      have mem: "x0 \<in> set xs" "x1 \<in> set xs" "set xs2 \<subseteq> set xs" using xs by auto
      from count_and_make_run_sorted[OF ag mem] obtain run rest where
        r: "count_and_make_run c x0 x1 xs2 = Inr (run, rest)" "sorted (map f run)"
          "mset run + mset rest = mset (x0 # x1 # xs2)"
          "\<forall>k. filter (\<lambda>x. f x = k) (run @ rest) = filter (\<lambda>x. f x = k) (x0 # x1 # xs2)"
        by blast
      have "set_mset (mset run + mset rest) = set xs" using r(3) xs by simp
      then have sub: "set run \<subseteq> set xs" "set rest \<subseteq> set xs" by auto
      from binary_insertion_sort_sorted[OF ag r(2) sub] obtain ys where
        ys: "binary_insertion_sort c run rest = Inr ys" "sorted (map f ys)"
          "\<forall>key. filter (\<lambda>x. f x = key) ys = filter (\<lambda>x. f x = key) (run @ rest)"
        by blast
      have "mset ys = mset xs"
        using binary_insertion_sort_mset[OF ys(1)] r(3) xs by simp
      then show ?thesis
        using r(1) r(4) ys xs by simp
    qed
  qed
  then obtain ys where
    ys: "array_sort c xs = Inr ys" "sorted (map f ys)" "mset ys = mset xs"
      "\<And>key. filter (\<lambda>x. f x = key) ys = filter (\<lambda>x. f x = key) xs"
    by blast
  have "sort_key f xs = ys"
  proof (rule properties_for_sort_key)
    show "mset ys = mset xs" by (rule ys(3))
    show "sorted (map f ys)" by (rule ys(2))
    show "filter (\<lambda>x. f k = f x) ys = filter (\<lambda>x. f k = f x) xs" for k
      using ys(4)[of "f k"] by (simp add: eq_commute)
  qed
  then show ?thesis using ys(1) by simp
qed

lemma priorityOrder_rank:
  "p \<in> set (map Str [''low'', ''medium'', ''high'', ''urgent'']) \<Longrightarrow>
   priorityOrder_at p = Inr (Rank (int (priority_rank p)))"
  by (auto simp: priorityOrder_get_def priorityOrder_def priority_rank_def)

lemma sortable_date:
  "sortable D t \<Longrightarrow>
   dueDate t = Null \<or> dueDate t = Str [] \<or>
   (\<exists>s n. dueDate t = Str s \<and> s \<noteq> [] \<and> D (dueDate t) = Some n)"
  by (auto simp: sortable_def split: jsval.splits)

lemma compare_sortable:
  assumes a: "sortable D a" and b: "sortable D b"
  shows "\<exists>n. sort_compare (compare_todos D a b) = Inr n \<and>
    (n < 0) = (order_key D a < order_key D b)"
proof -
  obtain ca cb where c: "isCompleted a = Bool ca" "isCompleted b = Bool cb"
    using a b by (auto simp: sortable_def split: jsval.splits)
  have pa: "priorityOrder_at (priority a) = Inr (Rank (int (priority_rank (priority a))))"
    and pb: "priorityOrder_at (priority b) = Inr (Rank (int (priority_rank (priority b))))"
    using a b priorityOrder_rank unfolding sortable_def by blast+
  show ?thesis
    using sortable_date[OF a] sortable_date[OF b]
    by (auto simp: compare_todos_def order_key_def c pa pb bindE_def sort_compare_def
        rank_minus_def js_minus_def date_time_def)
qed

lemma agrees_sortable:
  "\<forall>t \<in> set xs. sortable D t \<Longrightarrow> agrees (compare_todos D) (order_key D) (set xs)"
  unfolding agrees_def using compare_sortable by blast

text \<open>
  On stored todos of the declared types the comparator is a consistent ordering, and
  the sort returns the stable sort by the key of the specification.
\<close>

lemma sort_todos_sort_key:
  "\<forall>t \<in> set xs. sortable D t \<Longrightarrow> sort_todos D xs = Inr (sort_key (order_key D) xs)"
  unfolding sort_todos_def by (intro array_sort_sort_key agrees_sortable)

text \<open>The lexicographic order of the keys, spelled out.\<close>

lemma order_key_le_iff:
  "order_key D a \<le> order_key D b \<longleftrightarrow>
    (\<not> truthy (isCompleted a) \<and> truthy (isCompleted b)) \<or>
    (truthy (isCompleted a) = truthy (isCompleted b) \<and>
      (priority_rank (priority a) < priority_rank (priority b) \<or>
       (priority_rank (priority a) = priority_rank (priority b) \<and>
         ((truthy (dueDate a) \<and> \<not> truthy (dueDate b)) \<or>
          (\<not> truthy (dueDate a) \<and> \<not> truthy (dueDate b)) \<or>
          (truthy (dueDate a) \<and> truthy (dueDate b) \<and>
             (case D (dueDate a) of Some n \<Rightarrow> n | None \<Rightarrow> 0) \<le>
             (case D (dueDate b) of Some n \<Rightarrow> n | None \<Rightarrow> 0))))))"
  by (auto simp: order_key_def)

section \<open>Listing todos: the response\<close>

lemma get_todos_Inr:
  "filter_todos L D q todos = Inr xs \<Longrightarrow> sort_todos D xs = Inr ys \<Longrightarrow>
   get_todos L D q todos = Inr ((ok 200 ys)\<lparr>meta := Some (list_meta ys)\<rparr>)"
  by (simp add: get_todos_def bindE_def)









text \<open>
  The list operation on the inputs the interface describes: for stored todos of the
  declared types and a query of strings, the handler answers 200 with the todos that
  satisfy every supplied filter, in the stable order of the key.
\<close>

lemma get_todos_declared_types:
  assumes "\<forall>t \<in> set todos. filterable t \<and> sortable D t" and "D (Str []) = None"
    and "string_query q"
  shows "get_todos L D q todos =
    Inr ((ok 200 (sort_key (order_key D) (filter (spec_matches L D q) todos)))
      \<lparr>meta := Some (list_meta (sort_key (order_key D) (filter (spec_matches L D q) todos)))\<rparr>)"
proof -
  have f: "filter_todos L D q todos = Inr (filter (spec_matches L D q) todos)"
    using assms by (intro filter_todos_spec) auto
  have "\<forall>t \<in> set (filter (spec_matches L D q) todos). sortable D t"
    using assms(1) by auto
  then have s: "sort_todos D (filter (spec_matches L D q) todos) =
      Inr (sort_key (order_key D) (filter (spec_matches L D q) todos))"
    by (rule sort_todos_sort_key)
  show ?thesis by (rule get_todos_Inr[OF f s])
qed

text \<open>The worked collection, todo by todo.\<close>

lemma example_store:
  "run_todos example_requests [] =
     [new_todo ''A'' 1 1 [(''title'', Str ''A''), (''priority'', Str ''high''),
                         (''dueDate'', Str ''2025-01-01'')],
      new_todo ''B'' 2 2 [(''title'', Str ''B''), (''priority'', Str ''high''),
                         (''dueDate'', Str ''2025-01-02'')],
      new_todo ''C'' 3 3 [(''title'', Str ''C''), (''priority'', Str ''urgent'')],
      toggle 5 5 (new_todo ''D'' 4 4 [(''title'', Str ''D''), (''priority'', Str ''urgent''),
                         (''dueDate'', Str ''2025-01-01'')])]"
  by (simp add: example_requests_def post_todo_def patch_complete_def Let_def field_def
      field_default_def validTypes_includes_def validTypes_def new_todo_def toggle_def)

lemma example_store_declared_types:
  "\<forall>t \<in> set (run_todos example_requests []). filterable t \<and> sortable example_dates t"
  unfolding example_store
  by (simp add: filterable_def sortable_def new_todo_def toggle_def Let_def field_def
      field_default_def example_dates_def)

text \<open>
  The specification's example: the four todos A, B, C, D are listed as C, A, B, D.
\<close>

lemma example_order:
  "\<exists>r ys. get_todos L example_dates no_query (run_todos example_requests []) = Inr r \<and>
     data r = Some ys \<and> map todoId ys = [''C'', ''A'', ''B'', ''D'']"
proof -
  have q: "string_query no_query"
    by (simp add: string_query_def string_param_def no_query_def)
  have e: "example_dates (Str []) = None"
    by (simp add: example_dates_def)
  have all: "filter (spec_matches L example_dates no_query) (run_todos example_requests []) =
      run_todos example_requests []"
    by (simp add: spec_matches_def supplied_def param_def no_query_def)
  have "map todoId (sort_key (order_key example_dates) (run_todos example_requests [])) =
      [''C'', ''A'', ''B'', ''D'']"
    unfolding example_store
    by (simp add: order_key_def priority_rank_def new_todo_def toggle_def Let_def field_def
        field_default_def example_dates_def)
  then show ?thesis
    unfolding get_todos_declared_types[OF example_store_declared_types e q] all
    by (simp add: ok_def)
qed

subsection \<open>The counts\<close>










subsection \<open>Stored values of undeclared types\<close>

text \<open>
  Claim C3 at a failing input. Three todos are created with the priorities \<^verbatim>\<open>low\<close>,
  \<^verbatim>\<open>someday\<close> and \<^verbatim>\<open>high\<close>, in this order; no handler rejects the second. The
  comparator has no rank for \<^verbatim>\<open>someday\<close> and answers \<^verbatim>\<open>NaN\<close> against either neighbour,
  so the sort finds the three in order already: the list is returned as stored, the
  todo of priority \<^verbatim>\<open>low\<close> before the one of priority \<^verbatim>\<open>high\<close>.
\<close>

theorem unknown_priority_breaks_order:
  "map priority (run_todos unknown_priority_requests []) =
     [Str ''low'', Str ''someday'', Str ''high''] \<and>
   get_todos L D no_query (run_todos unknown_priority_requests []) =
     Inr ((ok 200 (run_todos unknown_priority_requests []))
       \<lparr>meta := Some (list_meta (run_todos unknown_priority_requests []))\<rparr>)"
proof -
  have store: "run_todos unknown_priority_requests [] =
    [new_todo ''L'' 1 1 [(''title'', Str ''L''), (''priority'', Str ''low'')],
     new_todo ''S'' 2 2 [(''title'', Str ''S''), (''priority'', Str ''someday'')],
     new_todo ''H'' 3 3 [(''title'', Str ''H''), (''priority'', Str ''high'')]]"
    by (simp add: unknown_priority_requests_def post_todo_def Let_def field_def
        field_default_def validTypes_includes_def validTypes_def)
  have p: "map priority (run_todos unknown_priority_requests []) =
     [Str ''low'', Str ''someday'', Str ''high'']"
    unfolding store by (simp add: new_todo_def Let_def field_def field_default_def)
  have f: "filter_todos L D no_query (run_todos unknown_priority_requests []) =
      Inr (run_todos unknown_priority_requests [])"
    by (simp add: filter_todos_def no_query_def param_def bindE_def)
  have s: "sort_todos D (run_todos unknown_priority_requests []) =
      Inr (run_todos unknown_priority_requests [])"
    unfolding store
    by (simp add: sort_todos_def count_and_make_run_def compare_todos_def sort_compare_def
        bindE_def priorityOrder_get_def priorityOrder_def object_prototype_members_def
        rank_minus_def new_todo_def Let_def field_def field_default_def)
  show ?thesis
    using p get_todos_Inr[OF f s] by simp
qed

text \<open>
  Claim C4 at two failing inputs. A todo is created with the string \<^verbatim>\<open>"xyz"\<close> for
  \<^verbatim>\<open>tags\<close>; no handler rejects it. The tag filter \<^verbatim>\<open>?tag=y\<close> then finds the todo by a
  substring test, although \<^verbatim>\<open>y\<close> is not one of its tags. And with a todo created with
  \<^verbatim>\<open>null\<close> for \<^verbatim>\<open>tags\<close> the same query throws: the request is answered by the error
  middleware and lists nothing.
\<close>

theorem unchecked_tags_break_filter:
  "map tags (run_todos string_tags_requests []) = [Str ''xyz''] \<and>
   \<not> has_tag (hd (run_todos string_tags_requests [])) ''y'' \<and>
   get_todos L D (no_query\<lparr>q_tag := Some (QStr ''y'')\<rparr>) (run_todos string_tags_requests []) =
     Inr ((ok 200 (run_todos string_tags_requests []))
       \<lparr>meta := Some (list_meta (run_todos string_tags_requests []))\<rparr>) \<and>
   map tags (run_todos null_tags_requests []) = [Null] \<and>
   get_todos L D (no_query\<lparr>q_tag := Some (QStr ''y'')\<rparr>) (run_todos null_tags_requests []) =
     Inl TypeError"
proof -
  have store: "run_todos string_tags_requests [] =
      [new_todo ''X'' 1 1 [(''title'', Str ''X''), (''tags'', Str ''xyz'')]]"
    "run_todos null_tags_requests [] =
      [new_todo ''N'' 1 1 [(''title'', Str ''N''), (''tags'', Null)]]"
    by (simp_all add: string_tags_requests_def null_tags_requests_def post_todo_def Let_def
        field_def field_default_def validTypes_includes_def validTypes_def)
  have t: "map tags (run_todos string_tags_requests []) = [Str ''xyz'']"
    "map tags (run_todos null_tags_requests []) = [Null]"
    "\<not> has_tag (hd (run_todos string_tags_requests [])) ''y''"
    unfolding store
    by (simp_all add: new_todo_def Let_def field_def field_default_def has_tag_def)
  have sub: "sublist ''y'' ''xyz''"
    by (simp add: sublist_Cons_right)
  have f: "filter_todos L D (no_query\<lparr>q_tag := Some (QStr ''y'')\<rparr>)
      (run_todos string_tags_requests []) = Inr (run_todos string_tags_requests [])"
    unfolding store using sub
    by (simp add: filter_todos_def no_query_def param_def bindE_def new_todo_def Let_def
        field_def field_default_def)
  have s: "sort_todos D (run_todos string_tags_requests []) =
      Inr (run_todos string_tags_requests [])"
    unfolding store by (simp add: sort_todos_def)
  have n: "get_todos L D (no_query\<lparr>q_tag := Some (QStr ''y'')\<rparr>)
      (run_todos null_tags_requests []) = Inl TypeError"
    unfolding store
    by (simp add: get_todos_def filter_todos_def no_query_def param_def bindE_def
        new_todo_def Let_def field_def field_default_def)
  show ?thesis
    using t get_todos_Inr[OF f s] n by simp
qed

section \<open>Timestamps\<close>

lemma post_note_created:
  "truthy (field b ''title'') \<Longrightarrow>
   \<exists>n. post_note uuid now1 now2 b notes = (ok 201 n, notes @ [n]) \<and>
       noteCreatedAt n = now1 \<and> noteUpdatedAt n = now2"
  by (simp add: post_note_def Let_def)

lemma post_note_rejected:
  "\<not> truthy (field b ''title'') \<Longrightarrow>
   post_note uuid now1 now2 b notes = (fail 400 ''Title is required'', notes)"
  by (simp add: post_note_def Let_def)

lemma handle_note_before:
  assumes sorted: "sorted (note_clock r @ future)"
    and inv: "\<forall>n \<in> set notes. note_before (note_clock r @ future) n"
  shows "\<forall>n \<in> set (snd (handle_note r notes)). note_before future n"
proof (cases r)
  case (PostNote uuid now1 now2 b)
  show ?thesis
  proof (cases "truthy (field b ''title'')")
    case True
    then show ?thesis
      using PostNote sorted inv
      by (auto simp: post_note_def Let_def note_before_def)
  next
    case False
    then show ?thesis
      using PostNote inv by (auto simp: post_note_def Let_def note_before_def)
  qed
next
  case (PutNote now i b)
  show ?thesis
  proof (cases "findIndex (\<lambda>n. noteId n = i) notes")
    case None
    then show ?thesis
      using PutNote inv by (auto simp: put_note_def note_before_def)
  next
    case (Some k)
    then have "k < length notes" by (rule findIndex_Some_less)
    then have old: "note_before (now # future) (notes ! k)"
      using inv PutNote by simp
    have new: "note_before future (put_note_merge now b (notes ! k))"
      using old by (simp add: note_before_def put_note_merge_def)
    have rest: "\<forall>n \<in> set notes. note_before future n"
      using inv PutNote by (simp add: note_before_def)
    from all_update[OF rest new] show ?thesis
      using PutNote Some by (simp add: put_note_def Let_def)
  qed
next
  case (DeleteNote i)
  show ?thesis
  proof (cases "findIndex (\<lambda>n. noteId n = i) notes")
    case None
    then show ?thesis using DeleteNote inv by (simp add: delete_note_def)
  next
    case (Some k)
    have "\<forall>n \<in> set notes. note_before future n"
      using inv DeleteNote by simp
    from all_splice1[OF this] show ?thesis
      using DeleteNote Some by (simp add: delete_note_def)
  qed
qed

lemma run_notes_before:
  "sorted (concat (map note_clock rs)) \<Longrightarrow>
   \<forall>n \<in> set ns. note_before (concat (map note_clock rs)) n \<Longrightarrow>
   \<forall>n \<in> set (run_notes rs ns). noteCreatedAt n \<le> noteUpdatedAt n"
proof (induction rs arbitrary: ns)
  case Nil
  then show ?case by (simp add: note_before_def)
next
  case (Cons r rs)
  have s: "sorted (note_clock r @ concat (map note_clock rs))"
    using Cons.prems(1) by simp
  have i: "\<forall>n \<in> set ns. note_before (note_clock r @ concat (map note_clock rs)) n"
    using Cons.prems(2) by simp
  have "\<forall>n \<in> set (snd (handle_note r ns)). note_before (concat (map note_clock rs)) n"
    using s i by (rule handle_note_before)
  moreover have "sorted (concat (map note_clock rs))"
    using s by (simp add: sorted_append)
  ultimately show ?case
    using Cons.IH by simp
qed

text \<open>
  Claim C9, as the handlers have it. A successful create request, for a note or for
  a todo, stores the first of its two clock readings as \<^verbatim>\<open>createdAt\<close> and the second
  as \<^verbatim>\<open>updatedAt\<close>: the two are equal when the clock has not advanced in between.
  When the clock readings of a sequence of requests never decrease, every note of the
  collection it reaches has \<^verbatim>\<open>createdAt\<close> \<open>\<le>\<close> \<^verbatim>\<open>updatedAt\<close>.
\<close>

theorem created_updated_readings:
  "(truthy (field b ''title'') \<longrightarrow>
      (\<exists>n. post_note uuid now1 now2 b notes = (ok 201 n, notes @ [n]) \<and>
         noteCreatedAt n = now1 \<and> noteUpdatedAt n = now2)) \<and>
   (status (fst (post_todo uuid now1 now2 b todos)) = 201 \<longrightarrow>
      (\<exists>t. post_todo uuid now1 now2 b todos = (ok 201 t, todos @ [t]) \<and>
         createdAt t = now1 \<and> updatedAt t = now2)) \<and>
   (sorted (concat (map note_clock rs)) \<longrightarrow>
      (\<forall>n \<in> set (run_notes rs []). noteCreatedAt n \<le> noteUpdatedAt n))"
proof (intro conjI impI)
  assume "truthy (field b ''title'')"
  then show "\<exists>n. post_note uuid now1 now2 b notes = (ok 201 n, notes @ [n]) \<and>
         noteCreatedAt n = now1 \<and> noteUpdatedAt n = now2"
    by (rule post_note_created)
next
  assume "status (fst (post_todo uuid now1 now2 b todos)) = 201"
  then show "\<exists>t. post_todo uuid now1 now2 b todos = (ok 201 t, todos @ [t]) \<and>
         createdAt t = now1 \<and> updatedAt t = now2"
    by (auto simp: post_todo_def Let_def fail_def new_todo_def split: if_splits)
next
  assume "sorted (concat (map note_clock rs))"
  then show "\<forall>n \<in> set (run_notes rs []). noteCreatedAt n \<le> noteUpdatedAt n"
    by (rule run_notes_before) simp
qed

theorem created_updated_readings_witness:
  "truthy (field [(''title'', Str ''x'')] ''title'') \<and>
   status (fst (post_todo ''t'' 1000 1001 [(''title'', Str ''x'')] [])) = 201 \<and>
   sorted (concat (map note_clock
      [PostNote ''n'' 1000 1001 [(''title'', Str ''x'')],
       PutNote 2000 ''n'' [(''content'', Str ''c'')]])) \<and>
   (\<exists>n. post_note ''n'' 1000 1001 [(''title'', Str ''x'')] [] = (ok 201 n, [] @ [n]) \<and>
      noteCreatedAt n = 1000 \<and> noteUpdatedAt n = 1001) \<and>
   (\<exists>t. post_todo ''t'' 1000 1001 [(''title'', Str ''x'')] [] = (ok 201 t, [] @ [t]) \<and>
      createdAt t = 1000 \<and> updatedAt t = 1001) \<and>
   list_all (\<lambda>n. noteCreatedAt n \<le> noteUpdatedAt n) (run_notes
      [PostNote ''n'' 1000 1001 [(''title'', Str ''x'')],
       PutNote 2000 ''n'' [(''content'', Str ''c'')]] [])"
proof -
  have t: "truthy (field [(''title'', Str ''x'')] ''title'')"
    by (simp add: field_def)
  have c: "status (fst (post_todo ''t'' 1000 1001 [(''title'', Str ''x'')] [])) = 201"
    by (simp add: eval_defs)
  have s: "sorted (concat (map note_clock
      [PostNote ''n'' 1000 1001 [(''title'', Str ''x'')],
       PutNote 2000 ''n'' [(''content'', Str ''c'')]]))"
    by simp
  from created_updated_readings[of "[(''title'', Str ''x'')]" "''n''" 1000 1001 "[]" "[]"
      "[PostNote ''n'' 1000 1001 [(''title'', Str ''x'')],
        PutNote 2000 ''n'' [(''content'', Str ''c'')]]"]
    created_updated_readings[of "[(''title'', Str ''x'')]" "''t''" 1000 1001 "[]" "[]" "[]"]
  show ?thesis
    using t c s unfolding list_all_iff by blast
qed

text \<open>
  The claim as it was written fails when the clock ticks between the two readings:
  the created note, and the created todo, have \<^verbatim>\<open>updatedAt\<close> one millisecond after
  \<^verbatim>\<open>createdAt\<close>.
\<close>

theorem created_updated_differ_counterexample:
  "map noteCreatedAt (snd (post_note ''n'' 1000 1001 [(''title'', Str ''x'')] [])) = [1000] \<and>
   map noteUpdatedAt (snd (post_note ''n'' 1000 1001 [(''title'', Str ''x'')] [])) = [1001] \<and>
   map createdAt (snd (post_todo ''t'' 1000 1001 [(''title'', Str ''x'')] [])) = [1000] \<and>
   map updatedAt (snd (post_todo ''t'' 1000 1001 [(''title'', Str ''x'')] [])) = [1001]"
  by (simp add: post_note_def eval_defs)

end

